theory Spec2Isabelle
  imports Main
begin

section \<open>Python values and errors\<close>

text \<open>
  The exceptions the two modules can raise. \<open>AttributeError\<close> is the read of an instance
  attribute that has not been assigned, \<open>IndexError\<close> a list index out of range,
  \<open>TypeError\<close> the unpacking of \<open>None\<close> or an unsupported comparison, \<open>ValueError\<close>
  the \<open>raise ValueError('Invalid direction')\<close> of \<open>move\<close>, \<open>OverflowError\<close> the
  conversion of an \<open>int\<close> too large for a float, and \<open>InvalidStrategy\<close> the
  \<open>raise Exception('Invalid strategy')\<close> of \<open>solve\<close>.
\<close>

datatype py_error =
  AttributeError | IndexError | TypeError | ValueError | OverflowError | InvalidStrategy

type_synonym pos = "int \<times> int"
type_synonym grid = "char list list"
type_synonym path = "string list"

text \<open>Sequencing of a computation that may raise: the first exception wins.\<close>

definition then_do :: "py_error + 'a \<Rightarrow> ('a \<Rightarrow> py_error + 'b) \<Rightarrow> py_error + 'b" where
  "then_do r f = (case r of Inl e \<Rightarrow> Inl e | Inr x \<Rightarrow> f x)"

text \<open>
  Python list indexing, \<open>xs[k]\<close> and \<open>xs[k] = v\<close>: a negative index counts from the
  end, and an index outside the list raises \<open>IndexError\<close>.
\<close>

definition py_index :: "'a list \<Rightarrow> int \<Rightarrow> py_error + 'a" where
  "py_index xs k =
     (let n = int (length xs); k' = (if k < 0 then k + n else k)
      in if k' < 0 \<or> n \<le> k' then Inl IndexError else Inr (xs ! nat k'))"

definition py_setitem :: "'a list \<Rightarrow> int \<Rightarrow> 'a \<Rightarrow> py_error + 'a list" where
  "py_setitem xs k v =
     (let n = int (length xs); k' = (if k < 0 then k + n else k)
      in if k' < 0 \<or> n \<le> k' then Inl IndexError else Inr (xs[nat k' := v]))"

text \<open>\<open>m[i][j]\<close> and \<open>m[i][j] = v\<close> on a list of rows.\<close>

definition cell_at :: "grid \<Rightarrow> pos \<Rightarrow> py_error + char" where
  "cell_at m p = then_do (py_index m (fst p)) (\<lambda>row. py_index row (snd p))"

definition set_cell :: "grid \<Rightarrow> pos \<Rightarrow> char \<Rightarrow> py_error + grid" where
  "set_cell m p v =
     then_do (py_index m (fst p)) (\<lambda>row.
     then_do (py_setitem row (snd p) v) (\<lambda>row'.
     py_setitem m (fst p) row'))"

text \<open>A position with both indices inside the grid, where no index wraps or overruns.\<close>

definition in_grid :: "grid \<Rightarrow> pos \<Rightarrow> bool" where
  "in_grid m p =
     (0 \<le> fst p \<and> fst p < int (length m) \<and> 0 \<le> snd p \<and> snd p < int (length (m ! nat (fst p))))"

section \<open>The game state\<close>

text \<open>
  An instance of class \<open>GameState\<close>. Python creates the attributes of an instance one
  assignment at a time, so every attribute is optional here: \<open>None\<close> is an attribute that
  has not been assigned yet, and reading it raises \<open>AttributeError\<close>. The attribute
  \<open>player\<close> may hold Python's \<open>None\<close> (no player cell found), which is \<open>Some None\<close>.
  The class defines neither \<open>__eq__\<close> nor \<open>__hash__\<close> nor \<open>__lt__\<close>, so an instance is
  compared and hashed by its identity, the field \<open>oid\<close>.
\<close>

record GameState =
  oid :: nat
  map_attr :: "grid option"
  player :: "pos option option"
  boxes :: "pos list option"
  targets :: "pos list option"
  is_solved :: "bool option"
  current_cost :: "int option"
  height :: "nat option"
  width :: "nat option"

definition getattr :: "'a option \<Rightarrow> py_error + 'a" where
  "getattr a = (case a of None \<Rightarrow> Inl AttributeError | Some v \<Rightarrow> Inr v)"

text \<open>\<open>self.map[i][j]\<close>.\<close>

definition self_cell :: "GameState \<Rightarrow> pos \<Rightarrow> py_error + char" where
  "self_cell self p = then_do (getattr (map_attr self)) (\<lambda>m. cell_at m p)"

subsection \<open>find_player, find_boxes, find_targets\<close>

text \<open>
  The two nested \<open>for\<close> loops over \<open>range(self.height)\<close> and \<open>range(self.width)\<close>.
  \<open>self.height\<close> is read once, \<open>self.width\<close> once per row.
\<close>

fun find_player_cols :: "GameState \<Rightarrow> nat \<Rightarrow> nat list \<Rightarrow> py_error + pos option" where
  "find_player_cols self i [] = Inr None"
| "find_player_cols self i (j # js) =
     then_do (self_cell self (int i, int j)) (\<lambda>c.
       if c = CHR ''@'' \<or> c = CHR ''+'' then Inr (Some (int i, int j))
       else find_player_cols self i js)"

fun find_player_rows :: "GameState \<Rightarrow> nat list \<Rightarrow> py_error + pos option" where
  "find_player_rows self [] = Inr None"
| "find_player_rows self (i # is) =
     then_do (getattr (width self)) (\<lambda>w.
     then_do (find_player_cols self i [0..<w]) (\<lambda>r.
       case r of Some p \<Rightarrow> Inr (Some p) | None \<Rightarrow> find_player_rows self is))"

definition find_player :: "GameState \<Rightarrow> py_error + pos option" where
  "find_player self = then_do (getattr (height self)) (\<lambda>h. find_player_rows self [0..<h])"

fun find_boxes_cols :: "GameState \<Rightarrow> nat \<Rightarrow> nat list \<Rightarrow> pos list \<Rightarrow> py_error + pos list" where
  "find_boxes_cols self i [] acc = Inr acc"
| "find_boxes_cols self i (j # js) acc =
     then_do (self_cell self (int i, int j)) (\<lambda>c.
       find_boxes_cols self i js
         (if c = CHR ''$'' \<or> c = CHR ''*'' then acc @ [(int i, int j)] else acc))"

fun find_boxes_rows :: "GameState \<Rightarrow> nat list \<Rightarrow> pos list \<Rightarrow> py_error + pos list" where
  "find_boxes_rows self [] acc = Inr acc"
| "find_boxes_rows self (i # is) acc =
     then_do (getattr (width self)) (\<lambda>w.
     then_do (find_boxes_cols self i [0..<w] acc) (\<lambda>acc'.
       find_boxes_rows self is acc'))"

definition find_boxes :: "GameState \<Rightarrow> py_error + pos list" where
  "find_boxes self = then_do (getattr (height self)) (\<lambda>h. find_boxes_rows self [0..<h] [])"

fun find_targets_cols :: "GameState \<Rightarrow> nat \<Rightarrow> nat list \<Rightarrow> pos list \<Rightarrow> py_error + pos list" where
  "find_targets_cols self i [] acc = Inr acc"
| "find_targets_cols self i (j # js) acc =
     then_do (self_cell self (int i, int j)) (\<lambda>c.
       find_targets_cols self i js
         (if c = CHR ''.'' \<or> c = CHR ''*'' then acc @ [(int i, int j)] else acc))"

fun find_targets_rows :: "GameState \<Rightarrow> nat list \<Rightarrow> pos list \<Rightarrow> py_error + pos list" where
  "find_targets_rows self [] acc = Inr acc"
| "find_targets_rows self (i # is) acc =
     then_do (getattr (width self)) (\<lambda>w.
     then_do (find_targets_cols self i [0..<w] acc) (\<lambda>acc'.
       find_targets_rows self is acc'))"

definition find_targets :: "GameState \<Rightarrow> py_error + pos list" where
  "find_targets self =
     then_do (getattr (height self)) (\<lambda>h. find_targets_rows self [0..<h] [])"

subsection \<open>check_solved\<close>

text \<open>
  \<open>all(box in self.targets for box in self.boxes)\<close>: \<open>self.boxes\<close> is read once,
  \<open>self.targets\<close> once per box, and the first box that is not a target ends the scan.
\<close>

fun all_in_targets :: "GameState \<Rightarrow> pos list \<Rightarrow> py_error + bool" where
  "all_in_targets self [] = Inr True"
| "all_in_targets self (box # bs) =
     then_do (getattr (targets self)) (\<lambda>ts.
       if box \<in> set ts then all_in_targets self bs else Inr False)"

definition check_solved :: "GameState \<Rightarrow> py_error + bool" where
  "check_solved self = then_do (getattr (boxes self)) (\<lambda>bs. all_in_targets self bs)"

subsection \<open>The constructor\<close>

text \<open>
  \<open>GameState(map, current_cost)\<close>: a fresh instance with identity \<open>ref\<close> and no
  attributes, then the assignments of \<open>__init__\<close> in the order of the source (lines
  25 to 32): \<open>map\<close>, \<open>player\<close>, \<open>boxes\<close>, \<open>targets\<close>, \<open>is_solved\<close>, \<open>current_cost\<close>,
  \<open>height\<close>, \<open>width\<close>. \<open>len(self.map[0])\<close> raises \<open>IndexError\<close> on an empty grid.
\<close>

definition new_instance :: "nat \<Rightarrow> GameState" where
  "new_instance ref =
     \<lparr>oid = ref, map_attr = None, player = None, boxes = None, targets = None,
      is_solved = None, current_cost = None, height = None, width = None\<rparr>"

definition GameState_init :: "nat \<Rightarrow> grid \<Rightarrow> int \<Rightarrow> py_error + GameState" where
  "GameState_init ref m cost =
     (let self = (new_instance ref)\<lparr>map_attr := Some m\<rparr> in
      then_do (find_player self) (\<lambda>p.
      let self = self\<lparr>player := Some p\<rparr> in
      then_do (find_boxes self) (\<lambda>bs.
      let self = self\<lparr>boxes := Some bs\<rparr> in
      then_do (find_targets self) (\<lambda>ts.
      let self = self\<lparr>targets := Some ts\<rparr> in
      then_do (check_solved self) (\<lambda>s.
      let self = self\<lparr>is_solved := Some s\<rparr> in
      let self = self\<lparr>current_cost := Some cost\<rparr> in
      then_do (getattr (map_attr self)) (\<lambda>m1.
      let self = self\<lparr>height := Some (length m1)\<rparr> in
      then_do (getattr (map_attr self)) (\<lambda>m2.
      then_do (py_index m2 0) (\<lambda>row0.
      let self = self\<lparr>width := Some (length row0)\<rparr> in
      Inr self))))))))"

subsection \<open>Cell classification\<close>

definition is_wall :: "GameState \<Rightarrow> pos \<Rightarrow> py_error + bool" where
  "is_wall self position = then_do (self_cell self position) (\<lambda>c. Inr (c = CHR ''#''))"

definition is_box :: "GameState \<Rightarrow> pos \<Rightarrow> py_error + bool" where
  "is_box self position =
     then_do (self_cell self position) (\<lambda>c. Inr (c = CHR ''$'' \<or> c = CHR ''*''))"

definition is_target :: "GameState \<Rightarrow> pos \<Rightarrow> py_error + bool" where
  "is_target self position =
     then_do (self_cell self position) (\<lambda>c. Inr (c = CHR ''.'' \<or> c = CHR ''*''))"

definition is_empty :: "GameState \<Rightarrow> pos \<Rightarrow> py_error + bool" where
  "is_empty self position = then_do (self_cell self position) (\<lambda>c. Inr (c = CHR '' ''))"

subsection \<open>Costs and the heuristic\<close>

text \<open>
  The numbers the cost functions produce: a Python \<open>int\<close>, or the float \<open>math.inf\<close>
  that \<open>manhattan_distance\<close> starts from. Two \<open>int\<close>s add exactly. Adding an \<open>int\<close>
  and \<open>math.inf\<close> first converts the \<open>int\<close> to a float, rounding to nearest: this
  raises \<open>OverflowError\<close> when the \<open>int\<close> rounds beyond the largest float, that is
  from \<open>2 ^ 1024 - 2 ^ 970\<close> on in absolute value; otherwise the sum is \<open>math.inf\<close>.
  Comparing an \<open>int\<close> with \<open>math.inf\<close> converts nothing and never raises.
\<close>

datatype pynum = Fin int | PInf

fun pynum_less :: "pynum \<Rightarrow> pynum \<Rightarrow> bool" where
  "pynum_less (Fin a) (Fin b) = (a < b)"
| "pynum_less (Fin a) PInf = True"
| "pynum_less PInf y = False"

definition fits_float :: "int \<Rightarrow> bool" where
  "fits_float n = (\<bar>n\<bar> < 2 ^ 1024 - 2 ^ 970)"

fun pynum_add :: "pynum \<Rightarrow> pynum \<Rightarrow> py_error + pynum" where
  "pynum_add (Fin a) (Fin b) = Inr (Fin (a + b))"
| "pynum_add (Fin a) PInf = (if fits_float a then Inr PInf else Inl OverflowError)"
| "pynum_add PInf (Fin b) = (if fits_float b then Inr PInf else Inl OverflowError)"
| "pynum_add PInf PInf = Inr PInf"

text \<open>Python's \<open>min(a, b)\<close> returns \<open>b\<close> only when \<open>b < a\<close>.\<close>

definition py_min :: "pynum \<Rightarrow> pynum \<Rightarrow> pynum" where
  "py_min a b = (if pynum_less b a then b else a)"

fun manhattan_loop :: "pos \<Rightarrow> pos list \<Rightarrow> pynum \<Rightarrow> pynum" where
  "manhattan_loop box_position [] min_distance = min_distance"
| "manhattan_loop box_position (target_position # ts) min_distance =
     (let distance = \<bar>fst box_position - fst target_position\<bar>
                     + \<bar>snd box_position - snd target_position\<bar>
      in manhattan_loop box_position ts (py_min min_distance (Fin distance)))"

definition manhattan_distance :: "pos \<Rightarrow> pos list \<Rightarrow> pynum" where
  "manhattan_distance box_position target_positions =
     manhattan_loop box_position target_positions PInf"

text \<open>\<open>self.boxes\<close> is read once, \<open>self.targets\<close> once per box.\<close>

fun heuristic_loop :: "GameState \<Rightarrow> pos list \<Rightarrow> pynum \<Rightarrow> py_error + pynum" where
  "heuristic_loop self [] heuristic = Inr heuristic"
| "heuristic_loop self (box_position # bs) heuristic =
     then_do (getattr (targets self)) (\<lambda>ts.
     then_do (pynum_add heuristic (manhattan_distance box_position ts)) (\<lambda>heuristic.
       heuristic_loop self bs heuristic))"

definition get_heuristic :: "GameState \<Rightarrow> py_error + pynum" where
  "get_heuristic self =
     then_do (getattr (boxes self)) (\<lambda>bs. heuristic_loop self bs (Fin 0))"

definition get_current_cost :: "GameState \<Rightarrow> py_error + int" where
  "get_current_cost self = getattr (current_cost self)"

definition get_total_cost :: "GameState \<Rightarrow> py_error + pynum" where
  "get_total_cost self =
     then_do (get_current_cost self) (\<lambda>c.
     then_do (get_heuristic self) (\<lambda>h. pynum_add (Fin c) h))"

subsection \<open>move\<close>

text \<open>
  Lines 149 to 158: the cell one step from the player, or \<open>ValueError\<close> for a direction
  that is none of the four letters.
\<close>

definition new_position_of :: "pos \<Rightarrow> string \<Rightarrow> py_error + pos" where
  "new_position_of p direction =
     (if direction = ''U'' then Inr (fst p - 1, snd p)
      else if direction = ''D'' then Inr (fst p + 1, snd p)
      else if direction = ''L'' then Inr (fst p, snd p - 1)
      else if direction = ''R'' then Inr (fst p, snd p + 1)
      else Inl ValueError)"

text \<open>
  Lines 180 to 186, the grid of a plain step: a copy of \<open>self.map\<close> in which the player's
  cell \<open>p\<close> becomes a space, or a target if it was \<open>+\<close>, and the entered cell becomes
  \<open>@\<close>, or \<open>+\<close> if it was a plain target.
\<close>

definition step_map :: "GameState \<Rightarrow> pos \<Rightarrow> pos \<Rightarrow> py_error + grid" where
  "step_map self p new_position =
     then_do (getattr (map_attr self)) (\<lambda>new_map.
     then_do (set_cell new_map p CHR '' '') (\<lambda>new_map.
     then_do (self_cell self p) (\<lambda>c.
     then_do (if c = CHR ''+'' then set_cell new_map p CHR ''.'' else Inr new_map) (\<lambda>new_map.
     then_do (set_cell new_map new_position CHR ''@'') (\<lambda>new_map.
     then_do (self_cell self new_position) (\<lambda>c.
     if c = CHR ''.'' then set_cell new_map new_position CHR ''+'' else Inr new_map))))))"

text \<open>
  Lines 165 to 174, the grid of a push: as for a step, and then the cell the box moves to
  becomes \<open>$\<close>, or \<open>*\<close> if it was a plain target.
\<close>

definition push_map :: "GameState \<Rightarrow> pos \<Rightarrow> pos \<Rightarrow> pos \<Rightarrow> py_error + grid" where
  "push_map self p new_position new_box_position =
     then_do (step_map self p new_position) (\<lambda>new_map.
     then_do (set_cell new_map new_box_position CHR ''$'') (\<lambda>new_map.
     then_do (self_cell self new_box_position) (\<lambda>c.
     if c = CHR ''.'' then set_cell new_map new_box_position CHR ''*'' else Inr new_map)))"

text \<open>
  \<open>move\<close>. \<open>i, j = self.player\<close> raises \<open>TypeError\<close> when the player is \<open>None\<close>. A
  blocked move returns \<open>self\<close>, the very same instance; a valid move builds the new grid
  and calls the constructor with it and \<open>self.current_cost + 1\<close>. \<open>ref\<close> is the identity
  the new instance would get.
\<close>

definition move :: "nat \<Rightarrow> GameState \<Rightarrow> string \<Rightarrow> py_error + GameState" where
  "move ref self direction =
     then_do (getattr (player self)) (\<lambda>pl.
     case pl of
       None \<Rightarrow> Inl TypeError
     | Some p \<Rightarrow>
         then_do (new_position_of p direction) (\<lambda>new_position.
         then_do (is_wall self new_position) (\<lambda>wall.
         if \<not> wall then
           then_do (is_box self new_position) (\<lambda>box.
           if box then
             let new_box_position =
                   (fst new_position + (fst new_position - fst p),
                    snd new_position + (snd new_position - snd p)) in
             then_do (is_wall self new_box_position) (\<lambda>wall2.
             then_do (if \<not> wall2
                      then then_do (is_box self new_box_position) (\<lambda>box2. Inr (\<not> box2))
                      else Inr False) (\<lambda>free.
             if free then
               then_do (push_map self p new_position new_box_position) (\<lambda>new_map.
               then_do (getattr (current_cost self)) (\<lambda>c.
               GameState_init ref new_map (c + 1)))
             else Inr self))
           else
             then_do (step_map self p new_position) (\<lambda>new_map.
             then_do (getattr (current_cost self)) (\<lambda>c.
             GameState_init ref new_map (c + 1))))
         else Inr self)))"

section \<open>The solver\<close>

subsection \<open>The visited set\<close>

text \<open>
  \<open>visited = set()\<close> holds instances of \<open>GameState\<close>. The class inherits \<open>__eq__\<close> and
  \<open>__hash__\<close> from \<open>object\<close>, so two instances are equal exactly when they are the same
  object, and \<open>state in visited\<close> holds exactly when that very object was added.
\<close>

definition state_eq :: "GameState \<Rightarrow> GameState \<Rightarrow> bool" where
  "state_eq a b = (oid a = oid b)"

definition visited_add :: "GameState list \<Rightarrow> GameState \<Rightarrow> GameState list" where
  "visited_add visited s = (if list_ex (state_eq s) visited then visited else visited @ [s])"

definition in_visited :: "GameState \<Rightarrow> GameState list \<Rightarrow> bool" where
  "in_visited s visited = list_ex (state_eq s) visited"

subsection \<open>Frontier entries and their order\<close>

text \<open>
  A frontier entry is the tuple \<open>(key, state, path)\<close> of the priority-queue strategies.
  \<open>bfs\<close> and \<open>dfs\<close> put \<open>(state, path)\<close>; their entries carry the key \<open>Fin 0\<close> here,
  which nothing reads. A path is a list of one-letter strings.

  Python compares two tuples at the first position where they differ: the keys if they
  are unequal; otherwise the two states, which are unequal unless they are one object,
  and \<open>GameState\<close> has no \<open>__lt__\<close>, so \<open><\<close> on them raises \<open>TypeError\<close>; otherwise
  the two paths, in the lexicographic order of lists of strings.
\<close>

type_synonym entry = "pynum \<times> GameState \<times> path"

fun str_less :: "string \<Rightarrow> string \<Rightarrow> bool" where
  "str_less [] [] = False"
| "str_less [] (y # ys) = True"
| "str_less (x # xs) [] = False"
| "str_less (x # xs) (y # ys) =
     (if x = y then str_less xs ys else (of_char x :: nat) < of_char y)"

fun path_less :: "path \<Rightarrow> path \<Rightarrow> bool" where
  "path_less [] [] = False"
| "path_less [] (y # ys) = True"
| "path_less (x # xs) [] = False"
| "path_less (x # xs) (y # ys) = (if x = y then path_less xs ys else str_less x y)"

definition entry_less :: "entry \<Rightarrow> entry \<Rightarrow> py_error + bool" where
  "entry_less a b =
     (if fst a \<noteq> fst b then Inr (pynum_less (fst a) (fst b))
      else if \<not> state_eq (fst (snd a)) (fst (snd b)) then Inl TypeError
      else Inr (path_less (snd (snd a)) (snd (snd b))))"

subsection \<open>The heap of queue.PriorityQueue\<close>

text \<open>
  \<open>PriorityQueue.put\<close> is \<open>heapq.heappush\<close> and \<open>PriorityQueue.get\<close> is
  \<open>heapq.heappop\<close> on a list. \<open>_siftdown(heap, startpos, pos)\<close> moves the item at \<open>pos\<close>
  towards the root while it is smaller than its parent; \<open>_siftup(heap, pos)\<close> moves the
  smaller child up until a leaf is reached and then sifts the item down from there.
  Every comparison is \<open>entry_less\<close> and may raise.
\<close>

function siftdown_loop :: "entry list \<Rightarrow> nat \<Rightarrow> nat \<Rightarrow> entry \<Rightarrow> py_error + entry list" where
  "siftdown_loop heap startpos pos newitem =
     (if startpos < pos then
        (case entry_less newitem (heap ! ((pos - 1) div 2)) of
           Inl e \<Rightarrow> Inl e
         | Inr lt \<Rightarrow>
             if lt then siftdown_loop (heap[pos := heap ! ((pos - 1) div 2)]) startpos
                          ((pos - 1) div 2) newitem
             else Inr (heap[pos := newitem]))
      else Inr (heap[pos := newitem]))"
  by pat_completeness auto
termination
  by (relation "measure (\<lambda>(heap, startpos, pos, newitem). pos)") auto

definition siftdown :: "entry list \<Rightarrow> nat \<Rightarrow> nat \<Rightarrow> py_error + entry list" where
  "siftdown heap startpos pos = siftdown_loop heap startpos pos (heap ! pos)"

function siftup_loop :: "entry list \<Rightarrow> nat \<Rightarrow> nat \<Rightarrow> py_error + (entry list \<times> nat)" where
  "siftup_loop heap endpos pos =
     (if 2 * pos + 1 < endpos then
        (case (if 2 * pos + 2 < endpos
               then then_do (entry_less (heap ! (2 * pos + 1)) (heap ! (2 * pos + 2)))
                      (\<lambda>lt. Inr (\<not> lt))
               else Inr False) of
           Inl e \<Rightarrow> Inl e
         | Inr use_right \<Rightarrow>
             if use_right
             then siftup_loop (heap[pos := heap ! (2 * pos + 2)]) endpos (2 * pos + 2)
             else siftup_loop (heap[pos := heap ! (2 * pos + 1)]) endpos (2 * pos + 1))
      else Inr (heap, pos))"
  by pat_completeness auto
termination
  by (relation "measure (\<lambda>(heap, endpos, pos). endpos - pos)") (auto split: if_splits)

definition siftup :: "entry list \<Rightarrow> nat \<Rightarrow> py_error + entry list" where
  "siftup heap pos =
     (let newitem = heap ! pos in
      then_do (siftup_loop heap (length heap) pos) (\<lambda>(heap', pos').
        siftdown (heap'[pos' := newitem]) pos pos'))"

definition heappush :: "entry list \<Rightarrow> entry \<Rightarrow> py_error + entry list" where
  "heappush heap item = siftdown (heap @ [item]) 0 (length heap)"

definition heappop :: "entry list \<Rightarrow> py_error + (entry \<times> entry list)" where
  "heappop heap =
     (if heap = [] then Inl IndexError
      else
        let lastelt = last heap; heap' = butlast heap in
        if heap' \<noteq> [] then
          then_do (siftup (heap'[0 := lastelt]) 0) (\<lambda>heap''. Inr (heap' ! 0, heap''))
        else Inr (lastelt, heap'))"

subsection \<open>The three frontiers\<close>

text \<open>
  \<open>Queue\<close> appends on \<open>put\<close> and takes the oldest entry on \<open>get\<close>; \<open>LifoQueue\<close> appends
  and takes the newest; \<open>PriorityQueue\<close> pushes onto and pops from the heap. The loop
  calls \<open>get\<close> only after \<open>frontier.empty()\<close> was false. On an empty queue \<open>get\<close> would
  wait for an item; \<open>frontier_get\<close> is not meant for the empty frontier, where it
  answers with the \<open>IndexError\<close> of the underlying \<open>popleft\<close>, \<open>pop\<close> and \<open>heappop\<close>.
\<close>

datatype discipline = Queue | LifoQueue | PriorityQueue

definition frontier_put :: "discipline \<Rightarrow> entry list \<Rightarrow> entry \<Rightarrow> py_error + entry list" where
  "frontier_put disc frontier item =
     (case disc of
        Queue \<Rightarrow> Inr (frontier @ [item])
      | LifoQueue \<Rightarrow> Inr (frontier @ [item])
      | PriorityQueue \<Rightarrow> heappush frontier item)"

definition frontier_get :: "discipline \<Rightarrow> entry list \<Rightarrow> py_error + (entry \<times> entry list)" where
  "frontier_get disc frontier =
     (case disc of
        Queue \<Rightarrow> (case frontier of [] \<Rightarrow> Inl IndexError | x # xs \<Rightarrow> Inr (x, xs))
      | LifoQueue \<Rightarrow>
          (if frontier = [] then Inl IndexError else Inr (last frontier, butlast frontier))
      | PriorityQueue \<Rightarrow> heappop frontier)"

subsection \<open>The search loop\<close>

text \<open>
  The five search methods are one loop, with a different queue and a different key.
  The state of a run is the frontier, the visited set and the identity the next new
  instance gets. \<open>expand\<close> is the \<open>for direction in ['U', 'D', 'L', 'R']\<close> loop: each
  direction calls \<open>move\<close>, and a successor that is not in the visited set is put on the
  frontier with the path extended by the direction.
\<close>

type_synonym config = "entry list \<times> GameState list \<times> nat"

fun expand ::
  "discipline \<Rightarrow> (GameState \<Rightarrow> py_error + pynum) \<Rightarrow> GameState \<Rightarrow> path \<Rightarrow> GameState list \<Rightarrow>
   string list \<Rightarrow> entry list \<Rightarrow> nat \<Rightarrow> py_error + (entry list \<times> nat)" where
  "expand disc key current_state path visited [] frontier ref = Inr (frontier, ref)"
| "expand disc key current_state path visited (direction # ds) frontier ref =
     then_do (move ref current_state direction) (\<lambda>new_state.
       if \<not> in_visited new_state visited then
         then_do (key new_state) (\<lambda>k.
         then_do (frontier_put disc frontier (k, new_state, path @ [direction])) (\<lambda>frontier'.
           expand disc key current_state path visited ds frontier' (Suc ref)))
       else expand disc key current_state path visited ds frontier (Suc ref))"

datatype outcome = Return "path option" | Continue config

text \<open>One iteration of \<open>while not frontier.empty()\<close>, or the \<open>return None\<close> after it.\<close>

definition search_step ::
  "discipline \<Rightarrow> (GameState \<Rightarrow> py_error + pynum) \<Rightarrow> config \<Rightarrow> py_error + outcome" where
  "search_step disc key cfg =
     (case cfg of (frontier, visited, ref) \<Rightarrow>
        if frontier = [] then Inr (Return None)
        else
          then_do (frontier_get disc frontier) (\<lambda>((k, current_state, path), frontier').
          then_do (check_solved current_state) (\<lambda>solved.
          if solved then Inr (Return (Some path))
          else if \<not> in_visited current_state visited then
            (let visited' = visited_add visited current_state in
             then_do (expand disc key current_state path visited'
                        [''U'', ''D'', ''L'', ''R''] frontier' ref) (\<lambda>(frontier'', ref').
               Inr (Continue (frontier'', visited', ref'))))
          else Inr (Continue (frontier', visited, ref)))))"

text \<open>
  The loop, with a bound on the number of iterations: \<open>None\<close> is a run that has not
  returned within the bound, \<open>Some (Inl e)\<close> a run that raised \<open>e\<close>, \<open>Some (Inr r)\<close> a run
  that returned \<open>r\<close> (a path, or Python's \<open>None\<close>).
\<close>

fun search_loop ::
  "nat \<Rightarrow> discipline \<Rightarrow> (GameState \<Rightarrow> py_error + pynum) \<Rightarrow> config \<Rightarrow>
   (py_error + path option) option" where
  "search_loop 0 disc key cfg = None"
| "search_loop (Suc n) disc key cfg =
     (case search_step disc key cfg of
        Inl e \<Rightarrow> Some (Inl e)
      | Inr (Return r) \<Rightarrow> Some (Inr r)
      | Inr (Continue cfg') \<Rightarrow> search_loop n disc key cfg')"

text \<open>The state of the run after \<open>n\<close> iterations, if the loop is still running then.\<close>

fun config_after ::
  "nat \<Rightarrow> discipline \<Rightarrow> (GameState \<Rightarrow> py_error + pynum) \<Rightarrow> config \<Rightarrow> config option" where
  "config_after 0 disc key cfg = Some cfg"
| "config_after (Suc n) disc key cfg =
     (case search_step disc key cfg of
        Inr (Continue cfg') \<Rightarrow> config_after n disc key cfg'
      | _ \<Rightarrow> None)"

text \<open>
  The lines before the loop: an empty frontier and visited set, and the initial state
  put on the frontier with its key and the empty path.
\<close>

definition initial_config ::
  "discipline \<Rightarrow> (GameState \<Rightarrow> py_error + pynum) \<Rightarrow> GameState \<Rightarrow> py_error + config" where
  "initial_config disc key initial_state =
     then_do (key initial_state) (\<lambda>k.
     then_do (frontier_put disc [] (k, initial_state, [])) (\<lambda>frontier.
       Inr (frontier, [], Suc (oid initial_state))))"

definition search ::
  "nat \<Rightarrow> discipline \<Rightarrow> (GameState \<Rightarrow> py_error + pynum) \<Rightarrow> GameState \<Rightarrow>
   (py_error + path option) option" where
  "search fuel disc key initial_state =
     (case initial_config disc key initial_state of
        Inl e \<Rightarrow> Some (Inl e)
      | Inr cfg \<Rightarrow> search_loop fuel disc key cfg)"

definition no_key :: "GameState \<Rightarrow> py_error + pynum" where
  "no_key s = Inr (Fin 0)"

definition ucs_key :: "GameState \<Rightarrow> py_error + pynum" where
  "ucs_key s = then_do (get_current_cost s) (\<lambda>c. Inr (Fin c))"

definition bfs :: "nat \<Rightarrow> GameState \<Rightarrow> (py_error + path option) option" where
  "bfs fuel initial_state = search fuel Queue no_key initial_state"

definition dfs :: "nat \<Rightarrow> GameState \<Rightarrow> (py_error + path option) option" where
  "dfs fuel initial_state = search fuel LifoQueue no_key initial_state"

definition astar :: "nat \<Rightarrow> GameState \<Rightarrow> (py_error + path option) option" where
  "astar fuel initial_state = search fuel PriorityQueue get_total_cost initial_state"

definition ucs :: "nat \<Rightarrow> GameState \<Rightarrow> (py_error + path option) option" where
  "ucs fuel initial_state = search fuel PriorityQueue ucs_key initial_state"

definition greedy :: "nat \<Rightarrow> GameState \<Rightarrow> (py_error + path option) option" where
  "greedy fuel initial_state = search fuel PriorityQueue get_heuristic initial_state"

definition custom :: "path option" where
  "custom = Some [''U'', ''U'']"

text \<open>
  \<open>solve\<close> dispatches on the strategy string; its result here is the value it stores in
  \<open>self.solution\<close>, which \<open>get_solution\<close> returns.
\<close>

definition solve :: "nat \<Rightarrow> GameState \<Rightarrow> string \<Rightarrow> (py_error + path option) option" where
  "solve fuel initial_state strategy =
     (if strategy = ''bfs'' then bfs fuel initial_state
      else if strategy = ''dfs'' then dfs fuel initial_state
      else if strategy = ''astar'' then astar fuel initial_state
      else if strategy = ''ucs'' then ucs fuel initial_state
      else if strategy = ''greedy'' then greedy fuel initial_state
      else if strategy = ''custom'' then Some (Inr custom)
      else Some (Inl InvalidStrategy))"

subsection \<open>The cost of a frontier entry\<close>

text \<open>Every entry of the frontier pairs a state with a path as long as its cost.\<close>

definition entries_ok :: "entry list \<Rightarrow> bool" where
  "entries_ok frontier =
     (\<forall>e \<in> set frontier. get_current_cost (fst (snd e)) = Inr (int (length (snd (snd e)))))"

section \<open>Example instances\<close>

text \<open>
  Fully initialised instances for small grids, written out attribute by attribute:
  \<open>player\<close>, \<open>boxes\<close> and \<open>targets\<close> hold the positions of the player cell, the box cells
  and the target cells of the grid, \<open>height\<close> and \<open>width\<close> its dimensions.
\<close>

definition blocked_example :: GameState where
  "blocked_example =
     \<lparr>oid = 0, map_attr = Some [''#####'', ''#@$$#'', ''#####''],
      player = Some (Some (1, 1)), boxes = Some [(1, 2), (1, 3)], targets = Some [],
      is_solved = Some False, current_cost = Some 0, height = Some 3, width = Some 5\<rparr>"

definition corridor_example :: GameState where
  "corridor_example =
     \<lparr>oid = 0, map_attr = Some [''#####'', ''#@ $#'', ''#####''],
      player = Some (Some (1, 1)), boxes = Some [(1, 3)], targets = Some [],
      is_solved = Some False, current_cost = Some 0, height = Some 3, width = Some 5\<rparr>"

definition push_example :: GameState where
  "push_example =
     \<lparr>oid = 0, map_attr = Some [''######'', ''#@$ .#'', ''######''],
      player = Some (Some (1, 1)), boxes = Some [(1, 2)], targets = Some [(1, 4)],
      is_solved = Some False, current_cost = Some 0, height = Some 3, width = Some 6\<rparr>"

definition box_on_target_example :: GameState where
  "box_on_target_example =
     \<lparr>oid = 0, map_attr = Some [''#####'', ''#@* #'', ''#####''],
      player = Some (Some (1, 1)), boxes = Some [(1, 2)], targets = Some [(1, 2)],
      is_solved = Some True, current_cost = Some 0, height = Some 3, width = Some 5\<rparr>"

definition top_edge_example :: GameState where
  "top_edge_example =
     \<lparr>oid = 0, map_attr = Some [''@#'', ''# ''],
      player = Some (Some (0, 0)), boxes = Some [], targets = Some [],
      is_solved = Some True, current_cost = Some 0, height = Some 2, width = Some 2\<rparr>"

definition bottom_edge_example :: GameState where
  "bottom_edge_example =
     \<lparr>oid = 0, map_attr = Some [''# '', '' @''],
      player = Some (Some (1, 1)), boxes = Some [], targets = Some [],
      is_solved = Some True, current_cost = Some 0, height = Some 2, width = Some 2\<rparr>"

section \<open>The same code over any constructor\<close>

text \<open>
  \<open>move_with ctor\<close> is \<open>move\<close> with the two calls \<open>GameState(new_map, self.current_cost + 1)\<close>
  of lines 175 and 187 made to \<open>ctor\<close>; \<open>expand_with\<close>, \<open>search_step_with\<close>,
  \<open>search_loop_with\<close> and \<open>config_after_with\<close> are the loop functions with
  \<open>move_with ctor\<close> in place of \<open>move\<close>. With \<open>GameState_init\<close> for \<open>ctor\<close> they are the
  functions of the source. They serve to state what the loop does with the states a
  constructor returns.
\<close>

type_synonym constructor = "nat \<Rightarrow> grid \<Rightarrow> int \<Rightarrow> py_error + GameState"

definition move_with :: "constructor \<Rightarrow> nat \<Rightarrow> GameState \<Rightarrow> string \<Rightarrow> py_error + GameState" where
  "move_with ctor ref self direction =
     then_do (getattr (player self)) (\<lambda>pl.
     case pl of
       None \<Rightarrow> Inl TypeError
     | Some p \<Rightarrow>
         then_do (new_position_of p direction) (\<lambda>new_position.
         then_do (is_wall self new_position) (\<lambda>wall.
         if \<not> wall then
           then_do (is_box self new_position) (\<lambda>box.
           if box then
             let new_box_position =
                   (fst new_position + (fst new_position - fst p),
                    snd new_position + (snd new_position - snd p)) in
             then_do (is_wall self new_box_position) (\<lambda>wall2.
             then_do (if \<not> wall2
                      then then_do (is_box self new_box_position) (\<lambda>box2. Inr (\<not> box2))
                      else Inr False) (\<lambda>free.
             if free then
               then_do (push_map self p new_position new_box_position) (\<lambda>new_map.
               then_do (getattr (current_cost self)) (\<lambda>c.
               ctor ref new_map (c + 1)))
             else Inr self))
           else
             then_do (step_map self p new_position) (\<lambda>new_map.
             then_do (getattr (current_cost self)) (\<lambda>c.
             ctor ref new_map (c + 1))))
         else Inr self)))"

fun expand_with ::
  "constructor \<Rightarrow> discipline \<Rightarrow> (GameState \<Rightarrow> py_error + pynum) \<Rightarrow> GameState \<Rightarrow> path \<Rightarrow>
   GameState list \<Rightarrow> string list \<Rightarrow> entry list \<Rightarrow> nat \<Rightarrow> py_error + (entry list \<times> nat)" where
  "expand_with ctor disc key current_state path visited [] frontier ref = Inr (frontier, ref)"
| "expand_with ctor disc key current_state path visited (direction # ds) frontier ref =
     then_do (move_with ctor ref current_state direction) (\<lambda>new_state.
       if \<not> in_visited new_state visited then
         then_do (key new_state) (\<lambda>k.
         then_do (frontier_put disc frontier (k, new_state, path @ [direction])) (\<lambda>frontier'.
           expand_with ctor disc key current_state path visited ds frontier' (Suc ref)))
       else expand_with ctor disc key current_state path visited ds frontier (Suc ref))"

definition search_step_with ::
  "constructor \<Rightarrow> discipline \<Rightarrow> (GameState \<Rightarrow> py_error + pynum) \<Rightarrow> config \<Rightarrow>
   py_error + outcome" where
  "search_step_with ctor disc key cfg =
     (case cfg of (frontier, visited, ref) \<Rightarrow>
        if frontier = [] then Inr (Return None)
        else
          then_do (frontier_get disc frontier) (\<lambda>((k, current_state, path), frontier').
          then_do (check_solved current_state) (\<lambda>solved.
          if solved then Inr (Return (Some path))
          else if \<not> in_visited current_state visited then
            (let visited' = visited_add visited current_state in
             then_do (expand_with ctor disc key current_state path visited'
                        [''U'', ''D'', ''L'', ''R''] frontier' ref) (\<lambda>(frontier'', ref').
               Inr (Continue (frontier'', visited', ref'))))
          else Inr (Continue (frontier', visited, ref)))))"

fun search_loop_with ::
  "constructor \<Rightarrow> nat \<Rightarrow> discipline \<Rightarrow> (GameState \<Rightarrow> py_error + pynum) \<Rightarrow> config \<Rightarrow>
   (py_error + path option) option" where
  "search_loop_with ctor 0 disc key cfg = None"
| "search_loop_with ctor (Suc n) disc key cfg =
     (case search_step_with ctor disc key cfg of
        Inl e \<Rightarrow> Some (Inl e)
      | Inr (Return r) \<Rightarrow> Some (Inr r)
      | Inr (Continue cfg') \<Rightarrow> search_loop_with ctor n disc key cfg')"

fun config_after_with ::
  "constructor \<Rightarrow> nat \<Rightarrow> discipline \<Rightarrow> (GameState \<Rightarrow> py_error + pynum) \<Rightarrow> config \<Rightarrow>
   config option" where
  "config_after_with ctor 0 disc key cfg = Some cfg"
| "config_after_with ctor (Suc n) disc key cfg =
     (case search_step_with ctor disc key cfg of
        Inr (Continue cfg') \<Rightarrow> config_after_with ctor n disc key cfg'
      | _ \<Rightarrow> None)"

text \<open>
  A constructor that returns: the assignments of \<open>__init__\<close> with \<open>height\<close> and \<open>width\<close>
  (lines 31 and 32) made before \<open>find_player\<close> is called. It is not the constructor of
  the source. It stores the cost it is given, and so is an instance of what the theorem on
  the frontier assumes of a constructor.
\<close>

definition ordered_init :: constructor where
  "ordered_init ref m cost =
     (let self = (new_instance ref)\<lparr>map_attr := Some m\<rparr> in
      then_do (getattr (map_attr self)) (\<lambda>m1.
      let self = self\<lparr>height := Some (length m1)\<rparr> in
      then_do (getattr (map_attr self)) (\<lambda>m2.
      then_do (py_index m2 0) (\<lambda>row0.
      let self = self\<lparr>width := Some (length row0)\<rparr> in
      then_do (find_player self) (\<lambda>p.
      let self = self\<lparr>player := Some p\<rparr> in
      then_do (find_boxes self) (\<lambda>bs.
      let self = self\<lparr>boxes := Some bs\<rparr> in
      then_do (find_targets self) (\<lambda>ts.
      let self = self\<lparr>targets := Some ts\<rparr> in
      then_do (check_solved self) (\<lambda>s.
      let self = self\<lparr>is_solved := Some s\<rparr> in
      let self = self\<lparr>current_cost := Some cost\<rparr> in
      Inr self))))))))"

text \<open>
  The instances \<open>ordered_init\<close> builds in a depth-first run from \<open>push_example\<close>: after
  the push to the right, after the step back to the left, and after the second push,
  which puts the box on the target.
\<close>

definition pushed_once_example :: GameState where
  "pushed_once_example =
     \<lparr>oid = 4, map_attr = Some [''######'', ''# @$.#'', ''######''],
      player = Some (Some (1, 2)), boxes = Some [(1, 3)], targets = Some [(1, 4)],
      is_solved = Some False, current_cost = Some 1, height = Some 3, width = Some 6\<rparr>"

definition stepped_back_example :: GameState where
  "stepped_back_example =
     \<lparr>oid = 7, map_attr = Some [''######'', ''#@ $.#'', ''######''],
      player = Some (Some (1, 1)), boxes = Some [(1, 3)], targets = Some [(1, 4)],
      is_solved = Some False, current_cost = Some 2, height = Some 3, width = Some 6\<rparr>"

definition pushed_twice_example :: GameState where
  "pushed_twice_example =
     \<lparr>oid = 8, map_attr = Some [''######'', ''#  @*#'', ''######''],
      player = Some (Some (1, 3)), boxes = Some [(1, 4)], targets = Some [(1, 4)],
      is_solved = Some True, current_cost = Some 2, height = Some 3, width = Some 6\<rparr>"

section \<open>Basic facts\<close>

lemma then_do_Inl [simp]: "then_do (Inl e) f = Inl e"
  by (simp add: then_do_def)

lemma then_do_Inr [simp]: "then_do (Inr x) f = f x"
  by (simp add: then_do_def)

lemma getattr_None [simp]: "getattr None = Inl AttributeError"
  by (simp add: getattr_def)

lemma getattr_Some [simp]: "getattr (Some v) = Inr v"
  by (simp add: getattr_def)

lemma fits_float_small [simp]: "\<bar>n\<bar> \<le> 1000000 \<Longrightarrow> fits_float n"
  by (simp add: fits_float_def)

lemma find_player_unset_height:
  "height self = None \<Longrightarrow> find_player self = Inl AttributeError"
  by (simp add: find_player_def)

lemmas cell_defs = self_cell_def cell_at_def py_index_def py_setitem_def set_cell_def Let_def

lemmas move_defs =
  move_def new_position_of_def is_wall_def is_box_def step_map_def push_map_def

lemma py_index_minus_one: "py_index xs (- 1) = py_index xs (int (length xs) - 1)"
  by (simp add: py_index_def Let_def)

lemma py_index_length: "py_index xs (int (length xs)) = Inl IndexError"
  by (simp add: py_index_def Let_def)

lemma self_cell_last_row:
  "map_attr self = Some m \<Longrightarrow> self_cell self (- 1, j) = self_cell self (int (length m) - 1, j)"
  by (simp add: self_cell_def cell_at_def py_index_minus_one)

lemma self_cell_last_col:
  "map_attr self = Some m \<Longrightarrow> py_index m i = Inr row \<Longrightarrow>
   self_cell self (i, - 1) = self_cell self (i, int (length row) - 1)"
  by (simp add: self_cell_def cell_at_def py_index_minus_one)

lemma self_cell_below:
  "map_attr self = Some m \<Longrightarrow> self_cell self (int (length m), j) = Inl IndexError"
  by (simp add: self_cell_def cell_at_def py_index_length)

lemma self_cell_right:
  "map_attr self = Some m \<Longrightarrow> py_index m i = Inr row \<Longrightarrow>
   self_cell self (i, int (length row)) = Inl IndexError"
  by (simp add: self_cell_def cell_at_def py_index_length)

lemma is_box_not_wall: "is_box self p = Inr True \<Longrightarrow> is_wall self p = Inr False"
  by (auto simp: is_box_def is_wall_def then_do_def split: sum.splits)

lemma GameState_init_AttributeError [simp]:
  "GameState_init ref m cost = Inl AttributeError"
  by (simp add: GameState_init_def new_instance_def find_player_unset_height)

text \<open>
  Every path of \<open>move\<close> that does not raise ends in \<open>return self\<close>: the other two call
  the constructor.
\<close>

lemma move_same_instance: "move ref self direction = Inr s' \<Longrightarrow> s' = self"
  by (auto simp: move_def then_do_def Let_def split: sum.splits option.splits if_splits)

section \<open>Moves inside the grid\<close>

lemma cell_at_in_grid: "in_grid m p \<Longrightarrow> cell_at m p = Inr (m ! nat (fst p) ! nat (snd p))"
  by (simp add: in_grid_def cell_at_def py_index_def Let_def)

lemma set_cell_in_grid:
  "in_grid m p \<Longrightarrow>
   set_cell m p v = Inr (m[nat (fst p) := (m ! nat (fst p))[nat (snd p) := v]])"
  by (simp add: in_grid_def set_cell_def py_index_def py_setitem_def Let_def)

lemma in_grid_update:
  "in_grid (m[a := (m ! a)[b := v]]) p = in_grid m p"
proof (cases "a = nat (fst p) \<and> a < length m")
  case True
  then show ?thesis by (auto simp: in_grid_def)
next
  case False
  then have "nat (fst p) < length m \<Longrightarrow> m[a := (m ! a)[b := v]] ! nat (fst p) = m ! nat (fst p)"
    by (cases "a = nat (fst p)") auto
  then show ?thesis by (auto simp: in_grid_def)
qed

lemma set_cell_ok:
  "in_grid m p \<Longrightarrow> \<exists>m'. set_cell m p v = Inr m' \<and> (\<forall>q. in_grid m' q = in_grid m q)"
  by (simp add: set_cell_in_grid in_grid_update)

lemma self_cell_ok:
  "map_attr self = Some m \<Longrightarrow> in_grid m p \<Longrightarrow> \<exists>c. self_cell self p = Inr c"
  by (simp add: self_cell_def cell_at_in_grid)

lemma step_map_ok:
  assumes m: "map_attr self = Some m" and p: "in_grid m p" and np: "in_grid m np"
  shows "\<exists>g. step_map self p np = Inr g \<and> (\<forall>q. in_grid g q = in_grid m q)"
proof -
  obtain m1 where m1: "set_cell m p CHR '' '' = Inr m1" "\<forall>q. in_grid m1 q = in_grid m q"
    using set_cell_ok [OF p] by blast
  obtain c where c: "self_cell self p = Inr c"
    using self_cell_ok [OF m p] by blast
  have "\<exists>m2. (if c = CHR ''+'' then set_cell m1 p CHR ''.'' else Inr m1) = Inr m2 \<and>
          (\<forall>q. in_grid m2 q = in_grid m q)"
    using set_cell_ok [of m1 p "CHR ''.''"] p m1(2) by auto
  then obtain m2 where
    m2: "(if c = CHR ''+'' then set_cell m1 p CHR ''.'' else Inr m1) = Inr m2"
        "\<forall>q. in_grid m2 q = in_grid m q"
    by blast
  obtain m3 where m3: "set_cell m2 np CHR ''@'' = Inr m3" "\<forall>q. in_grid m3 q = in_grid m q"
    using set_cell_ok [of m2 np "CHR ''@''"] np m2(2) by auto
  obtain c' where c': "self_cell self np = Inr c'"
    using self_cell_ok [OF m np] by blast
  have "\<exists>m4. (if c' = CHR ''.'' then set_cell m3 np CHR ''+'' else Inr m3) = Inr m4 \<and>
          (\<forall>q. in_grid m4 q = in_grid m q)"
    using set_cell_ok [of m3 np "CHR ''+''"] np m3(2) by auto
  then obtain m4 where
    m4: "(if c' = CHR ''.'' then set_cell m3 np CHR ''+'' else Inr m3) = Inr m4"
        "\<forall>q. in_grid m4 q = in_grid m q"
    by blast
  have "step_map self p np = Inr m4"
    using m m1(1) c m2(1) m3(1) c' m4(1) by (simp add: step_map_def)
  with m4(2) show ?thesis by blast
qed

lemma push_map_ok:
  assumes m: "map_attr self = Some m" and p: "in_grid m p" and np: "in_grid m np"
      and nb: "in_grid m nb"
  shows "\<exists>g. push_map self p np nb = Inr g"
proof -
  obtain g1 where g1: "step_map self p np = Inr g1" "\<forall>q. in_grid g1 q = in_grid m q"
    using step_map_ok [OF m p np] by blast
  obtain g2 where g2: "set_cell g1 nb CHR ''$'' = Inr g2" "\<forall>q. in_grid g2 q = in_grid m q"
    using set_cell_ok [of g1 nb "CHR ''$''"] nb g1(2) by auto
  obtain c where c: "self_cell self nb = Inr c"
    using self_cell_ok [OF m nb] by blast
  obtain g3 where g3: "set_cell g2 nb CHR ''*'' = Inr g3"
    using set_cell_ok [of g2 nb "CHR ''*''"] nb g2(2) by auto
  show ?thesis
    using g1(1) g2(1) c g3 by (simp add: push_map_def)
qed

lemma move_in_grid:
  assumes pl: "player self = Some (Some p)" and m: "map_attr self = Some m"
      and d: "new_position_of p direction = Inr np"
      and p: "in_grid m p" and np: "in_grid m np"
      and nb: "is_box self np = Inr True \<Longrightarrow>
               in_grid m (fst np + (fst np - fst p), snd np + (snd np - snd p))"
  shows "move ref self direction = Inr self \<or> move ref self direction = Inl AttributeError"
proof -
  let ?nb = "(fst np + (fst np - fst p), snd np + (snd np - snd p))"
  obtain w where w: "is_wall self np = Inr w"
    using m np by (simp add: is_wall_def self_cell_def cell_at_in_grid)
  obtain b where b: "is_box self np = Inr b"
    using m np by (simp add: is_box_def self_cell_def cell_at_in_grid)
  show ?thesis
  proof (cases w)
    case True
    with pl d w show ?thesis by (simp add: move_def)
  next
    case nw: False
    show ?thesis
    proof (cases b)
      case False
      obtain g where "step_map self p np = Inr g" using step_map_ok [OF m p np] by blast
      with pl d w nw b False show ?thesis
        by (cases "current_cost self") (simp_all add: move_def)
    next
      case True
      with b nb have inb: "in_grid m ?nb" by simp
      obtain w2 where w2: "is_wall self ?nb = Inr w2"
        using m inb by (simp add: is_wall_def self_cell_def cell_at_in_grid)
      obtain b2 where b2: "is_box self ?nb = Inr b2"
        using m inb by (simp add: is_box_def self_cell_def cell_at_in_grid)
      obtain g where g: "push_map self p np ?nb = Inr g"
        using push_map_ok [OF m p np inb] by blast
      show ?thesis
        using pl d w nw b True w2 b2 g
        by (cases "current_cost self") (simp_all add: move_def Let_def)
    qed
  qed
qed


lemma interior_of_enclosed:
  assumes rect: "\<forall>row \<in> set m. length row = w"
      and top: "\<forall>c \<in> set (hd m). c = CHR ''#''"
      and bottom: "\<forall>c \<in> set (last m). c = CHR ''#''"
      and sides: "\<forall>row \<in> set m. hd row = CHR ''#'' \<and> last row = CHR ''#''"
      and q: "in_grid m q" and c: "m ! nat (fst q) ! nat (snd q) \<noteq> CHR ''#''"
  shows "1 \<le> fst q \<and> fst q + 1 < int (length m) \<and> 1 \<le> snd q \<and> snd q + 1 < int w"
proof -
  let ?r = "nat (fst q)" and ?c = "nat (snd q)"
  from q have r: "?r < length m" and ne: "m \<noteq> []" by (auto simp: in_grid_def)
  then have row: "m ! ?r \<in> set m" by simp
  with rect have len: "length (m ! ?r) = w" by blast
  from q len have cw: "?c < w" and w0: "m ! ?r \<noteq> []" by (auto simp: in_grid_def)
  have "fst q \<noteq> 0"
  proof
    assume "fst q = 0"
    then have "m ! ?r = hd m" using ne by (simp add: hd_conv_nth)
    with top cw len c show False by (metis nth_mem)
  qed
  moreover have "fst q + 1 \<noteq> int (length m)"
  proof
    assume "fst q + 1 = int (length m)"
    then have "?r = length m - 1" by simp
    then have "m ! ?r = last m" using ne by (simp add: last_conv_nth)
    with bottom cw len c show False by (metis nth_mem)
  qed
  moreover have "snd q \<noteq> 0"
  proof
    assume "snd q = 0"
    then have "m ! ?r ! ?c = hd (m ! ?r)" using w0 by (simp add: hd_conv_nth)
    with sides row c show False by simp
  qed
  moreover have "snd q + 1 \<noteq> int w"
  proof
    assume "snd q + 1 = int w"
    then have "?c = length (m ! ?r) - 1" using len by simp
    then have "m ! ?r ! ?c = last (m ! ?r)" using w0 by (simp add: last_conv_nth)
    with sides row c show False by simp
  qed
  ultimately show ?thesis using q len by (auto simp: in_grid_def)
qed

lemma in_grid_rect:
  assumes "\<forall>row \<in> set m. length row = w"
      and "0 \<le> fst q" "fst q < int (length m)" "0 \<le> snd q" "snd q < int w"
  shows "in_grid m q"
proof -
  from assms(2,3) have "m ! nat (fst q) \<in> set m" by simp
  with assms(1) have "length (m ! nat (fst q)) = w" by blast
  with assms show ?thesis by (simp add: in_grid_def)
qed

lemma new_position_of_delta:
  assumes "new_position_of p direction = Inr np"
  shows "(fst np - fst p, snd np - snd p) \<in> {(- 1, 0), (1, 0), (0, - 1), (0, 1)}"
  using assms by (auto simp: new_position_of_def split: if_splits)

lemma move_enclosed:
  assumes rect: "\<forall>row \<in> set m. length row = w"
      and top: "\<forall>c \<in> set (hd m). c = CHR ''#''"
      and bottom: "\<forall>c \<in> set (last m). c = CHR ''#''"
      and sides: "\<forall>row \<in> set m. hd row = CHR ''#'' \<and> last row = CHR ''#''"
      and m: "map_attr self = Some m" and pl: "player self = Some (Some p)"
      and p0: "0 \<le> fst p" "0 \<le> snd p" and pc: "cell_at m p = Inr c" "c \<noteq> CHR ''#''"
      and d: "new_position_of p direction = Inr np"
  shows "0 \<le> fst np \<and> fst np < int (length m) \<and> 0 \<le> snd np \<and> snd np < int w \<and>
         (move ref self direction = Inr self \<or> move ref self direction = Inl AttributeError)"
proof -
  note enc = interior_of_enclosed [OF rect top bottom sides]
  have p: "in_grid m p"
    using pc(1) p0
    by (auto simp: in_grid_def cell_at_def py_index_def Let_def then_do_def
             split: if_splits sum.splits)
  with pc have "m ! nat (fst p) ! nat (snd p) \<noteq> CHR ''#''" by (simp add: cell_at_in_grid)
  from enc [OF p this] have ip:
    "1 \<le> fst p" "fst p + 1 < int (length m)" "1 \<le> snd p" "snd p + 1 < int w" by auto
  from new_position_of_delta [OF d] ip have npr:
    "0 \<le> fst np" "fst np < int (length m)" "0 \<le> snd np" "snd np < int w" by auto
  then have np: "in_grid m np" by (rule in_grid_rect [OF rect])
  have nb: "in_grid m (fst np + (fst np - fst p), snd np + (snd np - snd p))"
    if b: "is_box self np = Inr True"
  proof -
    from b m np have "m ! nat (fst np) ! nat (snd np) \<noteq> CHR ''#''"
      by (auto simp: is_box_def self_cell_def cell_at_in_grid)
    from enc [OF np this] new_position_of_delta [OF d] show ?thesis
      by (intro in_grid_rect [OF rect]) auto
  qed
  from move_in_grid [OF pl m d p np nb] npr show ?thesis by simp
qed

section \<open>The heap and the search loop\<close>

declare siftdown_loop.simps [simp del] siftup_loop.simps [simp del]

lemma heappush_empty: "heappush [] item = Inr [item]"
  by (simp add: heappush_def siftdown_def siftdown_loop.simps)

lemma frontier_put_empty: "frontier_put disc [] item = Inr [item]"
  by (cases disc) (simp_all add: frontier_put_def heappush_empty)

lemma siftdown_loop_set:
  "siftdown_loop heap startpos pos x = Inr h' \<Longrightarrow> pos < length heap \<Longrightarrow>
   set h' \<subseteq> insert x (set heap)"
proof (induction heap startpos pos x rule: siftdown_loop.induct)
  case (1 heap startpos pos newitem)
  show ?case
  proof (cases "startpos < pos")
    case False
    with "1.prems" show ?thesis
      using set_update_subset_insert [of heap pos newitem]
      by (simp add: siftdown_loop.simps)
  next
    case True
    let ?pp = "(pos - 1) div 2"
    have pp: "?pp < length heap" using "1.prems"(2) by simp
    show ?thesis
    proof (cases "entry_less newitem (heap ! ?pp)")
      case (Inl e)
      with True "1.prems" show ?thesis by (simp add: siftdown_loop.simps)
    next
      case (Inr lt)
      show ?thesis
      proof (cases lt)
        case False
        with True Inr "1.prems" show ?thesis
          using set_update_subset_insert [of heap pos newitem]
          by (simp add: siftdown_loop.simps)
      next
        case lt: True
        from True Inr lt "1.prems"(1)
        have rec: "siftdown_loop (heap[pos := heap ! ?pp]) startpos ?pp newitem = Inr h'"
          by (simp add: siftdown_loop.simps)
        have "set h' \<subseteq> insert newitem (set (heap[pos := heap ! ?pp]))"
          using "1.IH" [OF True Inr lt rec] pp by simp
        moreover have "set (heap[pos := heap ! ?pp]) \<subseteq> set heap"
          using set_update_subset_insert [of heap pos "heap ! ?pp"] pp by auto
        ultimately show ?thesis by auto
      qed
    qed
  qed
qed

lemma siftup_loop_set:
  "siftup_loop heap endpos pos = Inr (h', pos') \<Longrightarrow> endpos \<le> length heap \<Longrightarrow>
   pos < length heap \<Longrightarrow>
   set h' \<subseteq> set heap \<and> length h' = length heap \<and> pos' < length heap"
proof (induction heap endpos pos arbitrary: h' pos' rule: siftup_loop.induct)
  case (1 heap endpos pos)
  show ?case
  proof (cases "2 * pos + 1 < endpos")
    case False
    with "1.prems" show ?thesis by (simp add: siftup_loop.simps)
  next
    case True
    let ?c = "if 2 * pos + 2 < endpos
               then then_do (entry_less (heap ! (2 * pos + 1)) (heap ! (2 * pos + 2)))
                      (\<lambda>lt. Inr (\<not> lt))
               else Inr False"
    show ?thesis
    proof (cases ?c)
      case (Inl e)
      with True "1.prems" show ?thesis by (simp add: siftup_loop.simps)
    next
      case (Inr use_right)
      show ?thesis
      proof (cases use_right)
        case ur: True
        have r: "2 * pos + 2 < endpos" using Inr ur by (simp split: if_splits)
        from True Inr ur "1.prems"(1)
        have rec: "siftup_loop (heap[pos := heap ! (2 * pos + 2)]) endpos (2 * pos + 2) = Inr (h', pos')"
          by (simp add: siftup_loop.simps)
        have "set h' \<subseteq> set (heap[pos := heap ! (2 * pos + 2)]) \<and>
              length h' = length (heap[pos := heap ! (2 * pos + 2)]) \<and>
              pos' < length (heap[pos := heap ! (2 * pos + 2)])"
          using "1.IH"(1) [OF True Inr ur rec] "1.prems"(2) r by simp
        moreover have "set (heap[pos := heap ! (2 * pos + 2)]) \<subseteq> set heap"
          using set_update_subset_insert [of heap pos "heap ! (2 * pos + 2)"] r "1.prems"(2)
          by auto
        ultimately show ?thesis by auto
      next
        case ur: False
        from True Inr ur "1.prems"(1)
        have rec: "siftup_loop (heap[pos := heap ! (2 * pos + 1)]) endpos (2 * pos + 1) = Inr (h', pos')"
          by (simp add: siftup_loop.simps)
        have "set h' \<subseteq> set (heap[pos := heap ! (2 * pos + 1)]) \<and>
              length h' = length (heap[pos := heap ! (2 * pos + 1)]) \<and>
              pos' < length (heap[pos := heap ! (2 * pos + 1)])"
          using "1.IH"(2) [OF True Inr ur rec] "1.prems"(2) True by simp
        moreover have "set (heap[pos := heap ! (2 * pos + 1)]) \<subseteq> set heap"
          using set_update_subset_insert [of heap pos "heap ! (2 * pos + 1)"] True "1.prems"(2)
          by auto
        ultimately show ?thesis by auto
      qed
    qed
  qed
qed

lemma siftup_set:
  assumes "siftup heap pos = Inr h'" and "pos < length heap"
  shows "set h' \<subseteq> set heap"
proof -
  from assms(1) obtain h1 p1 where
    l: "siftup_loop heap (length heap) pos = Inr (h1, p1)" and
    d: "siftdown (h1[p1 := heap ! pos]) pos p1 = Inr h'"
    by (auto simp: siftup_def Let_def then_do_def split: sum.splits prod.splits)
  from siftup_loop_set [OF l _ assms(2)]
  have h1: "set h1 \<subseteq> set heap" "length h1 = length heap" "p1 < length heap" by auto
  from d have "siftdown_loop (h1[p1 := heap ! pos]) pos p1 (heap ! pos) = Inr h'"
    using h1 by (simp add: siftdown_def)
  from siftdown_loop_set [OF this] h1
  have "set h' \<subseteq> insert (heap ! pos) (set (h1[p1 := heap ! pos]))" by simp
  moreover have "set (h1[p1 := heap ! pos]) \<subseteq> insert (heap ! pos) (set h1)"
    by (rule set_update_subset_insert)
  moreover have "heap ! pos \<in> set heap" using assms(2) by simp
  ultimately show ?thesis using h1(1) by blast
qed

lemma heappop_set:
  assumes "heappop heap = Inr (x, h')"
  shows "x \<in> set heap \<and> set h' \<subseteq> set heap"
proof -
  from assms have ne: "heap \<noteq> []" by (auto simp: heappop_def)
  show ?thesis
  proof (cases "butlast heap = []")
    case True
    with assms ne show ?thesis by (auto simp: heappop_def Let_def)
  next
    case False
    with assms ne have
      s: "siftup ((butlast heap)[0 := last heap]) 0 = Inr h'" and x: "x = butlast heap ! 0"
      by (auto simp: heappop_def Let_def then_do_def split: sum.splits)
    have b: "set (butlast heap) \<subseteq> set heap" by (auto dest: in_set_butlastD)
    have "x \<in> set (butlast heap)" using False x by (cases "butlast heap") simp_all
    moreover have "0 < length ((butlast heap)[0 := last heap])"
      using False by (cases "butlast heap") simp_all
    then have "set h' \<subseteq> set ((butlast heap)[0 := last heap])"
      by (rule siftup_set [OF s])
    moreover have "set ((butlast heap)[0 := last heap]) \<subseteq> insert (last heap) (set (butlast heap))"
      by (rule set_update_subset_insert)
    moreover have "last heap \<in> set heap" using ne by simp
    ultimately show ?thesis using b by blast
  qed
qed

lemma frontier_get_set:
  "frontier_get disc frontier = Inr (x, rest) \<Longrightarrow> x \<in> set frontier \<and> set rest \<subseteq> set frontier"
  by (cases disc)
     (auto simp: frontier_get_def heappop_set split: list.splits if_splits dest: in_set_butlastD)

lemma in_visited_add: "in_visited s (visited_add visited s)"
  by (auto simp: in_visited_def visited_add_def state_eq_def list_ex_iff)

lemma entries_ok_subset: "entries_ok fr \<Longrightarrow> set fr' \<subseteq> set fr \<Longrightarrow> entries_ok fr'"
  by (auto simp: entries_ok_def)

declare expand_with.simps [simp del]

lemma move_with_GameState_init: "move_with GameState_init = move"
  by (intro ext) (simp add: move_with_def move_def)

lemma expand_with_GameState_init:
  "expand_with GameState_init disc key s path visited ds frontier ref
     = expand disc key s path visited ds frontier ref"
  by (induction ds arbitrary: frontier ref)
     (simp_all add: expand_with.simps move_with_GameState_init cong del: if_weak_cong)

lemma search_step_with_GameState_init: "search_step_with GameState_init = search_step"
  by (intro ext)
     (simp add: search_step_with_def search_step_def expand_with_GameState_init
           del: expand.simps cong del: if_weak_cong prod.case_cong_weak split: prod.splits)

lemma search_loop_with_GameState_init:
  "search_loop_with GameState_init n disc key cfg = search_loop n disc key cfg"
  by (induction n arbitrary: cfg)
     (simp_all add: search_step_with_GameState_init split: sum.splits outcome.splits)

lemma config_after_with_GameState_init:
  "config_after_with GameState_init n disc key cfg = config_after n disc key cfg"
  by (induction n arbitrary: cfg)
     (simp_all add: search_step_with_GameState_init split: sum.splits outcome.splits)

lemma ordered_init_stores_cost:
  "ordered_init ref m c = Inr s' \<Longrightarrow> get_current_cost s' = Inr c"
  by (auto simp: ordered_init_def Let_def then_do_def get_current_cost_def split: sum.splits)

lemma move_with_cost:
  assumes ctor: "\<forall>ref m c s'. ctor ref m c = Inr s' \<longrightarrow> get_current_cost s' = Inr c"
      and mv: "move_with ctor ref s direction = Inr s'"
  shows "s' = s \<or> (\<exists>c. get_current_cost s = Inr c \<and> get_current_cost s' = Inr (c + 1))"
proof (cases "s' = s")
  case True
  then show ?thesis by simp
next
  case False
  with mv obtain new_map c where "current_cost s = Some c" "ctor ref new_map (c + 1) = Inr s'"
    by (auto simp: move_with_def then_do_def Let_def getattr_def
             split: sum.splits option.splits if_splits)
  with ctor show ?thesis by (auto simp: get_current_cost_def)
qed

lemma heappush_set: "heappush heap item = Inr h' \<Longrightarrow> set h' \<subseteq> insert item (set heap)"
  using siftdown_loop_set [of "heap @ [item]" 0 "length heap" item h']
  by (simp add: heappush_def siftdown_def)

lemma frontier_put_set:
  "frontier_put disc frontier item = Inr frontier' \<Longrightarrow> set frontier' \<subseteq> insert item (set frontier)"
  by (cases disc) (auto simp: frontier_put_def dest: heappush_set)

lemma entries_ok_put:
  assumes "frontier_put disc frontier (k, s, p) = Inr frontier'" and "entries_ok frontier"
      and "get_current_cost s = Inr (int (length p))"
  shows "entries_ok frontier'"
  using frontier_put_set [OF assms(1)] assms(2,3) by (auto simp: entries_ok_def)

lemma expand_with_entries_ok:
  assumes ctor: "\<forall>ref m c s'. ctor ref m c = Inr s' \<longrightarrow> get_current_cost s' = Inr c"
      and cost: "get_current_cost s = Inr (int (length path))"
      and vis: "in_visited s visited"
  shows "expand_with ctor disc key s path visited ds frontier ref = Inr (frontier', ref') \<Longrightarrow>
         entries_ok frontier \<Longrightarrow> entries_ok frontier'"
proof (induction ds arbitrary: frontier ref)
  case Nil
  then show ?case by (simp add: expand_with.simps)
next
  case (Cons d ds)
  from Cons.prems(1) obtain s' where mv: "move_with ctor ref s d = Inr s'"
    by (cases "move_with ctor ref s d") (auto simp: expand_with.simps)
  show ?case
  proof (cases "in_visited s' visited")
    case True
    with Cons.prems(1) mv
    have "expand_with ctor disc key s path visited ds frontier (Suc ref) = Inr (frontier', ref')"
      by (simp add: expand_with.simps)
    from Cons.IH [OF this Cons.prems(2)] show ?thesis .
  next
    case False
    with vis have "s' \<noteq> s" by auto
    with move_with_cost [OF ctor mv] cost
    have c': "get_current_cost s' = Inr (int (length (path @ [d])))" by auto
    from Cons.prems(1) mv False obtain k where k: "key s' = Inr k"
      by (cases "key s'") (auto simp: expand_with.simps)
    with Cons.prems(1) mv False obtain f1 where
      put: "frontier_put disc frontier (k, s', path @ [d]) = Inr f1"
      by (cases "frontier_put disc frontier (k, s', path @ [d])") (auto simp: expand_with.simps)
    with Cons.prems(1) mv False k
    have rec: "expand_with ctor disc key s path visited ds f1 (Suc ref) = Inr (frontier', ref')"
      by (simp add: expand_with.simps)
    from entries_ok_put [OF put Cons.prems(2) c'] have "entries_ok f1" .
    from Cons.IH [OF rec this] show ?thesis .
  qed
qed

lemma search_step_with_unfold:
  assumes "frontier \<noteq> []"
      and "frontier_get disc frontier = Inr ((k, s, p), rest)"
      and "check_solved s = Inr solved"
  shows "search_step_with ctor disc key (frontier, visited, ref) =
           (if solved then Inr (Return (Some p))
            else if \<not> in_visited s visited then
              then_do (expand_with ctor disc key s p (visited_add visited s)
                         [''U'', ''D'', ''L'', ''R''] rest ref) (\<lambda>(frontier'', ref').
                Inr (Continue (frontier'', visited_add visited s, ref')))
            else Inr (Continue (rest, visited, ref)))"
  using assms by (simp add: search_step_with_def Let_def)

lemma search_step_with_cases:
  assumes "search_step_with ctor disc key (frontier, visited, ref) = Inr out"
  obtains "frontier = []" "out = Return None"
  | k s p rest solved where "frontier \<noteq> []"
      "frontier_get disc frontier = Inr ((k, s, p), rest)" "check_solved s = Inr solved"
proof (cases "frontier = []")
  case True
  with assms have "out = Return None" by (simp add: search_step_with_def)
  with True that(1) show ?thesis by blast
next
  case False
  with assms obtain k s p rest where
    g: "frontier_get disc frontier = Inr ((k, s, p), rest)"
    by (cases "frontier_get disc frontier") (auto simp: search_step_with_def)
  with assms False obtain solved where "check_solved s = Inr solved"
    by (cases "check_solved s") (auto simp: search_step_with_def)
  with False g that(2) show ?thesis by blast
qed

lemma search_step_with_Continue:
  assumes ctor: "\<forall>ref m c s'. ctor ref m c = Inr s' \<longrightarrow> get_current_cost s' = Inr c"
      and st: "search_step_with ctor disc key (frontier, visited, ref)
                 = Inr (Continue (frontier', visited', ref'))"
      and ok: "entries_ok frontier"
  shows "entries_ok frontier'"
  using st
proof (cases rule: search_step_with_cases)
  case 1
  then show ?thesis by simp
next
  case (2 k s p rest solved)
  note u = search_step_with_unfold [OF 2, of ctor key visited ref]
  from frontier_get_set [OF 2(2)] have mem: "(k, s, p) \<in> set frontier"
    and rest: "set rest \<subseteq> set frontier" by simp_all
  from ok rest have okr: "entries_ok rest" by (rule entries_ok_subset)
  from ok mem have cost: "get_current_cost s = Inr (int (length p))"
    by (auto simp: entries_ok_def)
  show ?thesis
  proof (cases "\<not> solved \<and> \<not> in_visited s visited")
    case True
    with st u obtain fr2 r2 where
      e: "expand_with ctor disc key s p (visited_add visited s) [''U'', ''D'', ''L'', ''R''] rest ref
            = Inr (fr2, r2)" and f: "frontier' = fr2"
      by (cases "expand_with ctor disc key s p (visited_add visited s)
                   [''U'', ''D'', ''L'', ''R''] rest ref") auto
    from expand_with_entries_ok [OF ctor cost in_visited_add e okr] f show ?thesis by simp
  next
    case False
    with st u okr show ?thesis by (auto split: if_splits)
  qed
qed

lemma search_step_with_Return:
  assumes st: "search_step_with ctor disc key (frontier, visited, ref) = Inr (Return (Some path))"
  shows "\<exists>k s rest. frontier_get disc frontier = Inr ((k, s, path), rest) \<and>
                     check_solved s = Inr True"
  using st
proof (cases rule: search_step_with_cases)
  case 1
  then show ?thesis by simp
next
  case (2 k s q rest solved)
  note u = search_step_with_unfold [OF 2, of ctor key visited ref]
  have "solved \<and> q = path"
  proof (cases "\<not> solved \<and> \<not> in_visited s visited")
    case True
    with st u show ?thesis
      by (cases "expand_with ctor disc key s q (visited_add visited s)
                   [''U'', ''D'', ''L'', ''R''] rest ref") auto
  next
    case False
    with st u show ?thesis by (auto split: if_splits)
  qed
  with 2(2,3) show ?thesis by auto
qed

lemma config_after_with_entries_ok:
  assumes ctor: "\<forall>ref m c s'. ctor ref m c = Inr s' \<longrightarrow> get_current_cost s' = Inr c"
  shows "config_after_with ctor n disc key (frontier, visited, ref)
           = Some (frontier', visited', ref') \<Longrightarrow>
         entries_ok frontier \<Longrightarrow> entries_ok frontier'"
proof (induction n arbitrary: frontier visited ref)
  case 0
  then show ?case by simp
next
  case (Suc n)
  from Suc.prems(1) obtain f1 v1 r1 where
    st: "search_step_with ctor disc key (frontier, visited, ref) = Inr (Continue (f1, v1, r1))" and
    ca: "config_after_with ctor n disc key (f1, v1, r1) = Some (frontier', visited', ref')"
    by (cases "search_step_with ctor disc key (frontier, visited, ref)")
       (auto split: outcome.splits)
  from search_step_with_Continue [OF ctor st Suc.prems(2)] have "entries_ok f1" .
  from Suc.IH [OF ca this] show ?case .
qed

lemma search_loop_with_returns:
  "search_loop_with ctor fuel disc key cfg = Some (Inr (Some path)) \<Longrightarrow>
   \<exists>n cfg'. n < fuel \<and> config_after_with ctor n disc key cfg = Some cfg' \<and>
            search_step_with ctor disc key cfg' = Inr (Return (Some path))"
proof (induction fuel arbitrary: cfg)
  case 0
  then show ?case by simp
next
  case (Suc fuel)
  show ?case
  proof (cases "search_step_with ctor disc key cfg")
    case (Inl e)
    with Suc.prems show ?thesis by simp
  next
    case (Inr out)
    show ?thesis
    proof (cases out)
      case (Return r)
      with Inr Suc.prems have "search_step_with ctor disc key cfg = Inr (Return (Some path))"
        by simp
      then have "0 < Suc fuel \<and> config_after_with ctor 0 disc key cfg = Some cfg \<and>
                 search_step_with ctor disc key cfg = Inr (Return (Some path))" by simp
      then show ?thesis by blast
    next
      case (Continue cfg1)
      with Inr Suc.prems have "search_loop_with ctor fuel disc key cfg1 = Some (Inr (Some path))"
        by simp
      from Suc.IH [OF this] obtain n cfg' where
        n: "n < fuel" "config_after_with ctor n disc key cfg1 = Some cfg'"
           "search_step_with ctor disc key cfg' = Inr (Return (Some path))" by blast
      with Inr Continue have "Suc n < Suc fuel \<and>
           config_after_with ctor (Suc n) disc key cfg = Some cfg' \<and>
           search_step_with ctor disc key cfg' = Inr (Return (Some path))" by simp
      then show ?thesis by blast
    qed
  qed
qed


lemma dfs_run_push_example:
  "config_after_with ordered_init 2 LifoQueue no_key ([(Fin 0, push_example, [])], [], 1)
     = Some ([(Fin 0, stepped_back_example, [''R'', ''L'']),
              (Fin 0, pushed_twice_example, [''R'', ''R''])],
             [push_example, pushed_once_example], 9)"
  by code_simp

lemma dfs_step_push_example:
  "search_step_with ordered_init LifoQueue no_key
     ([(Fin 0, stepped_back_example, [''R'', ''L'']),
       (Fin 0, pushed_twice_example, [''R'', ''R''])],
      [push_example, pushed_once_example], 9) = Inr (Return (Some [''R'', ''R'']))"
  by code_simp

lemma dfs_loop_push_example:
  "search_loop_with ordered_init 3 LifoQueue no_key ([(Fin 0, push_example, [])], [], 1)
     = Some (Inr (Some [''R'', ''R'']))"
  by code_simp

lemma initial_config_entries_ok:
  assumes "initial_config disc key s0 = Inr (frontier, visited, ref)"
      and "get_current_cost s0 = Inr 0"
  shows "entries_ok frontier"
  using assms
  by (auto simp: initial_config_def frontier_put_empty entries_ok_def then_do_def
           split: sum.splits)

lemmas solve_defs =
  solve_def bfs_def dfs_def astar_def ucs_def greedy_def search_def initial_config_def
  frontier_put_empty search_step_def frontier_get_def heappop_def
  check_solved_def in_visited_def visited_add_def state_eq_def
  no_key_def ucs_key_def get_total_cost_def get_current_cost_def get_heuristic_def
  manhattan_distance_def py_min_def

section \<open>Construction\<close>

text \<open>
  Claim C1. Constructing a state from a rectangular grid with a player cell is claimed to
  succeed and to derive the player position, the box and target positions, the solved
  flag and the dimensions. In the source, \<open>__init__\<close> calls \<open>find_player\<close> on line 26,
  which reads \<open>self.height\<close>, an attribute assigned only on line 31: on the instance that
  has only its \<open>map\<close> attribute, \<open>find_player\<close> raises \<open>AttributeError\<close>, and so does the
  constructor, for every grid and every cost. No state is produced.
\<close>

theorem GameState_init_raises:
  "find_player ((new_instance ref)\<lparr>map_attr := Some m\<rparr>) = Inl AttributeError \<and>
   GameState_init ref m cost = Inl AttributeError"
  by (simp add: GameState_init_def new_instance_def find_player_def)

section \<open>Equality of states\<close>

text \<open>
  Claim C2. Two states are claimed to be equal for the visited-set membership test
  exactly when their grids are cell-for-cell identical, whatever their path costs. The
  solver keeps a visited set and tests every popped state and every successor against
  it, but the class defines neither \<open>__eq__\<close> nor \<open>__hash__\<close>, so the test compares
  identities. A second instance with the grid of \<open>blocked_example\<close> and another cost is
  not equal to it and is not found in a visited set that holds it.
\<close>

theorem visited_misses_equal_grid:
  "map_attr (blocked_example\<lparr>oid := 1, current_cost := Some 3\<rparr>) = map_attr blocked_example \<and>
   \<not> state_eq (blocked_example\<lparr>oid := 1, current_cost := Some 3\<rparr>) blocked_example \<and>
   \<not> in_visited (blocked_example\<lparr>oid := 1, current_cost := Some 3\<rparr>)
        (visited_add [] blocked_example)"
  by (simp add: blocked_example_def state_eq_def in_visited_def visited_add_def)

section \<open>Moves\<close>

text \<open>
  Claim C6. For every state and every direction of the four: if the cell one step from
  the player is a wall, or holds a box whose next cell in the same direction is a wall or
  holds a box, then \<open>move\<close> returns the input state itself, and the current cost of the
  result is that of the input.
\<close>

theorem move_blocked_returns_self:
  assumes pl: "player self = Some (Some p)"
      and np: "new_position_of p direction = Inr np"
      and blocked:
        "is_wall self np = Inr True \<or>
         (is_box self np = Inr True \<and>
          (is_wall self (fst np + (fst np - fst p), snd np + (snd np - snd p)) = Inr True \<or>
           is_box self (fst np + (fst np - fst p), snd np + (snd np - snd p)) = Inr True))"
  shows "move ref self direction = Inr self \<and>
         then_do (move ref self direction) get_current_cost = get_current_cost self"
proof -
  have "move ref self direction = Inr self"
    using blocked
  proof (elim disjE conjE)
    assume "is_wall self np = Inr True"
    then show ?thesis by (simp add: move_def pl np)
  next
    assume b: "is_box self np = Inr True"
      and w2: "is_wall self (fst np + (fst np - fst p), snd np + (snd np - snd p)) = Inr True"
    show ?thesis
      using w2 by (simp add: move_def pl np b is_box_not_wall [OF b] Let_def)
  next
    assume b: "is_box self np = Inr True"
      and b2: "is_box self (fst np + (fst np - fst p), snd np + (snd np - snd p)) = Inr True"
    show ?thesis
      using b2 is_box_not_wall [OF b2]
      by (simp add: move_def pl np b is_box_not_wall [OF b] Let_def)
  qed
  then show ?thesis by simp
qed

text \<open>
  In the grid \<open>#@$$#\<close> between two rows of walls the player is blocked upwards by a wall
  and to the right by a box that has a box behind it.
\<close>

theorem move_blocked_returns_self_witness:
  "player blocked_example = Some (Some (1, 1)) \<and>
   is_wall blocked_example (0, 1) = Inr True \<and>
   is_box blocked_example (1, 2) = Inr True \<and>
   is_box blocked_example (1, 3) = Inr True \<and>
   move 1 blocked_example ''U'' = Inr blocked_example \<and>
   move 1 blocked_example ''R'' = Inr blocked_example"
  using move_blocked_returns_self [of blocked_example "(1, 1)" "''U''" "(0, 1)" 1]
        move_blocked_returns_self [of blocked_example "(1, 1)" "''R''" "(1, 2)" 1]
  by (simp add: blocked_example_def new_position_of_def is_wall_def is_box_def cell_defs)

text \<open>
  Claim C9. For every state, \<open>move\<close> with a direction that is none of \<open>U\<close>, \<open>D\<close>, \<open>L\<close>,
  \<open>R\<close> raises an error: \<open>ValueError\<close> when the state has a player position (and
  \<open>TypeError\<close> or \<open>AttributeError\<close> from the unpacking of \<open>self.player\<close> otherwise). The
  error comes before any successor computation: the outcome is the same whatever the
  grid and the cost of the state are, so neither is read, and nothing is written, the
  state being a value that \<open>move\<close> only reads.
\<close>

theorem move_invalid_direction:
  assumes "direction \<notin> {''U'', ''D'', ''L'', ''R''}"
  shows "(\<exists>e. move ref self direction = Inl e) \<and>
         (player self = Some (Some p) \<longrightarrow> move ref self direction = Inl ValueError) \<and>
         move ref (self\<lparr>map_attr := m', current_cost := c'\<rparr>) direction
           = move ref self direction"
  using assms
  by (auto simp: move_def new_position_of_def getattr_def split: option.splits)

theorem move_invalid_direction_witness:
  "''X'' \<notin> {''U'', ''D'', ''L'', ''R''} \<and>
   player blocked_example = Some (Some (1, 1)) \<and>
   move 1 blocked_example ''X'' = Inl ValueError \<and>
   move 1 (blocked_example\<lparr>map_attr := None, current_cost := None\<rparr>) ''X''
     = move 1 blocked_example ''X''"
  using move_invalid_direction [of "''X''" 1 blocked_example "(1, 1)" None None]
  by (simp add: blocked_example_def)

text \<open>
  Claim C10. \<open>move\<close> checks no grid bounds. From row 0 the target of \<open>U\<close> has row index
  \<open>-1\<close>, which every cell predicate reads as the last row; from column 0 the target of
  \<open>L\<close> has column index \<open>-1\<close>, read as the last column of that row. So a wall on the
  opposite edge blocks the move. \<open>D\<close> from the last row and \<open>R\<close> from the last column of
  a row index past the grid and raise \<open>IndexError\<close>. When the grid is rectangular and its
  first and last row and the first and last cell of every row are walls, a player on a
  cell of the grid that is not a wall is not on the edge: the target of each of the four
  moves is inside the grid and \<open>move\<close> raises no \<open>IndexError\<close>.
\<close>

theorem move_wraps_or_raises_at_edge:
  assumes m: "map_attr self = Some m"
  shows
   "is_wall self (- 1, j) = is_wall self (int (length m) - 1, j) \<and>
    is_box self (- 1, j) = is_box self (int (length m) - 1, j) \<and>
    is_target self (- 1, j) = is_target self (int (length m) - 1, j) \<and>
    is_empty self (- 1, j) = is_empty self (int (length m) - 1, j) \<and>
    (py_index m i = Inr row \<longrightarrow>
       is_wall self (i, - 1) = is_wall self (i, int (length row) - 1) \<and>
       is_box self (i, - 1) = is_box self (i, int (length row) - 1) \<and>
       is_target self (i, - 1) = is_target self (i, int (length row) - 1) \<and>
       is_empty self (i, - 1) = is_empty self (i, int (length row) - 1)) \<and>
    (player self = Some (Some (0, j)) \<and> is_wall self (int (length m) - 1, j) = Inr True \<longrightarrow>
       move ref self ''U'' = Inr self) \<and>
    (player self = Some (Some (i, 0)) \<and> py_index m i = Inr row \<and>
     is_wall self (i, int (length row) - 1) = Inr True \<longrightarrow>
       move ref self ''L'' = Inr self) \<and>
    (player self = Some (Some (int (length m) - 1, j)) \<longrightarrow>
       move ref self ''D'' = Inl IndexError) \<and>
    (player self = Some (Some (i, int (length row) - 1)) \<and> py_index m i = Inr row \<longrightarrow>
       move ref self ''R'' = Inl IndexError) \<and>
    ((\<forall>r \<in> set m. length r = w) \<and>
     (\<forall>x \<in> set (hd m). x = CHR ''#'') \<and> (\<forall>x \<in> set (last m). x = CHR ''#'') \<and>
     (\<forall>r \<in> set m. hd r = CHR ''#'' \<and> last r = CHR ''#'') \<and>
     player self = Some (Some p) \<and> 0 \<le> fst p \<and> 0 \<le> snd p \<and>
     cell_at m p = Inr c \<and> c \<noteq> CHR ''#'' \<and> new_position_of p direction = Inr np \<longrightarrow>
       0 \<le> fst np \<and> fst np < int (length m) \<and> 0 \<le> snd np \<and> snd np < int w \<and>
       move ref self direction \<noteq> Inl IndexError)"
proof -
  have rows: "self_cell self (- 1, j) = self_cell self (int (length m) - 1, j)"
    by (rule self_cell_last_row [OF m])
  have cols: "self_cell self (i, - 1) = self_cell self (i, int (length row) - 1)"
    if "py_index m i = Inr row"
    by (rule self_cell_last_col [OF m that])
  have up: "move ref self ''U'' = Inr self"
    if "player self = Some (Some (0, j))" "is_wall self (int (length m) - 1, j) = Inr True"
    using that rows by (simp add: move_def new_position_of_def is_wall_def)
  have left: "move ref self ''L'' = Inr self"
    if "player self = Some (Some (i, 0))" "py_index m i = Inr row"
       "is_wall self (i, int (length row) - 1) = Inr True"
    using that cols by (simp add: move_def new_position_of_def is_wall_def)
  have down: "move ref self ''D'' = Inl IndexError"
    if "player self = Some (Some (int (length m) - 1, j))"
    using that self_cell_below [OF m, of j]
    by (simp add: move_def new_position_of_def is_wall_def)
  have right: "move ref self ''R'' = Inl IndexError"
    if "player self = Some (Some (i, int (length row) - 1))" "py_index m i = Inr row"
    using that self_cell_right [OF m that(2)]
    by (simp add: move_def new_position_of_def is_wall_def)
  have inside:
    "0 \<le> fst np \<and> fst np < int (length m) \<and> 0 \<le> snd np \<and> snd np < int w \<and>
     move ref self direction \<noteq> Inl IndexError"
    if "\<forall>r \<in> set m. length r = w" "\<forall>x \<in> set (hd m). x = CHR ''#''"
       "\<forall>x \<in> set (last m). x = CHR ''#''"
       "\<forall>r \<in> set m. hd r = CHR ''#'' \<and> last r = CHR ''#''"
       "player self = Some (Some p)" "0 \<le> fst p" "0 \<le> snd p"
       "cell_at m p = Inr c" "c \<noteq> CHR ''#''" "new_position_of p direction = Inr np"
    using move_enclosed [OF that(1-4) m that(5-10), of ref] by auto
  have edge:
    "is_wall self (- 1, j) = is_wall self (int (length m) - 1, j) \<and>
     is_box self (- 1, j) = is_box self (int (length m) - 1, j) \<and>
     is_target self (- 1, j) = is_target self (int (length m) - 1, j) \<and>
     is_empty self (- 1, j) = is_empty self (int (length m) - 1, j) \<and>
     (py_index m i = Inr row \<longrightarrow>
        is_wall self (i, - 1) = is_wall self (i, int (length row) - 1) \<and>
        is_box self (i, - 1) = is_box self (i, int (length row) - 1) \<and>
        is_target self (i, - 1) = is_target self (i, int (length row) - 1) \<and>
        is_empty self (i, - 1) = is_empty self (i, int (length row) - 1))"
    using rows cols by (simp add: is_wall_def is_box_def is_target_def is_empty_def)
  show ?thesis
    using edge up left down right inside by blast
qed

text \<open>
  In the grid with rows \<open>@#\<close> and \<open># \<close> the player in the top left corner is blocked
  upwards by the wall below it and leftwards by the wall to its right. In the grid with
  rows \<open># \<close> and \<open> @\<close> the player in the bottom right corner raises on \<open>D\<close> and \<open>R\<close>.
  In the walled grid \<open>#@ $#\<close> the target of \<open>R\<close> is the cell in row 1 and column 2.
\<close>

theorem move_wraps_or_raises_at_edge_witness:
  "is_wall top_edge_example (- 1, 0) = Inr True \<and>
   is_wall top_edge_example (0, - 1) = Inr True \<and>
   move 1 top_edge_example ''U'' = Inr top_edge_example \<and>
   move 1 top_edge_example ''L'' = Inr top_edge_example \<and>
   move 1 bottom_edge_example ''D'' = Inl IndexError \<and>
   move 1 bottom_edge_example ''R'' = Inl IndexError \<and>
   cell_at [''#####'', ''#@ $#'', ''#####''] (1, 1) = Inr CHR ''@'' \<and>
   new_position_of (1, 1) ''R'' = Inr (1, 2) \<and>
   move 1 corridor_example ''R'' \<noteq> Inl IndexError"
  using move_wraps_or_raises_at_edge
          [where self = top_edge_example and m = "[''@#'', ''# '']" and j = 0 and i = 0
             and row = "''@#''" and ref = 1
             and w = 5 and p = "(1, 1)" and c = "CHR ''@''" and direction = "''R''"
             and np = "(1, 2)"]
        move_wraps_or_raises_at_edge
          [where self = bottom_edge_example and m = "[''# '', '' @'']" and j = 1 and i = 1
             and row = "'' @''" and ref = 1
             and w = 5 and p = "(1, 1)" and c = "CHR ''@''" and direction = "''R''"
             and np = "(1, 2)"]
        move_wraps_or_raises_at_edge
          [where self = corridor_example and m = "[''#####'', ''#@ $#'', ''#####'']"
             and j = 0 and i = 0 and row = "''#####''" and ref = 1
             and w = 5 and p = "(1, 1)" and c = "CHR ''@''" and direction = "''R''"
             and np = "(1, 2)"]
  by (simp add: top_edge_example_def bottom_edge_example_def corridor_example_def
        is_wall_def new_position_of_def cell_defs)

text \<open>
  Claim C7. A valid move is claimed to return a new state, with the player on the entered
  cell (and a pushed box one cell further) and the path cost raised by one. In the source
  the new grid is built as claimed: a step to the right in \<open>#@ $#\<close> gives \<open># @$#\<close> and a
  push to the right in \<open>#@$ .#\<close> gives \<open># @$.#\<close>. But \<open>move\<close> then calls the constructor
  with that grid, which raises \<open>AttributeError\<close>: no state is returned.
\<close>

theorem move_valid_raises:
  "step_map corridor_example (1, 1) (1, 2) = Inr [''#####'', ''# @$#'', ''#####''] \<and>
   move 1 corridor_example ''R'' = Inl AttributeError \<and>
   push_map push_example (1, 1) (1, 2) (1, 3) = Inr [''######'', ''# @$.#'', ''######''] \<and>
   move 1 push_example ''R'' = Inl AttributeError"
  by (simp add: corridor_example_def push_example_def move_defs cell_defs)

text \<open>
  Claim C5. On a valid move the cells are claimed to be relabelled by the composite
  symbol rules, among them: when a pushed box leaves a \<open>*\<close> cell, the cell keeps its
  target marking and the entering player is recorded as \<open>+\<close>. In the source, line 170
  tests the entered cell for \<open>.\<close> only, so in \<open>#@* #\<close> a push to the right writes
  \<open># @$#\<close>: the player is recorded as \<open>@\<close> and the target is lost. The constructor call
  that follows raises \<open>AttributeError\<close>, as on every valid move.
\<close>

theorem push_from_target_loses_target:
  "push_map box_on_target_example (1, 1) (1, 2) (1, 3) = Inr [''#####'', ''# @$#'', ''#####''] \<and>
   cell_at [''#####'', ''# @$#'', ''#####''] (1, 2) = Inr CHR ''@'' \<and>
   move 1 box_on_target_example ''R'' = Inl AttributeError"
  by (simp add: box_on_target_example_def move_defs cell_defs)

section \<open>Search\<close>

text \<open>
  Claim C8. For the loop of every search strategy, started from an initial state of
  current cost 0: every entry ever placed on the frontier holds a state whose current
  cost is the length of the entry's path, and when a solved state is popped, the path
  returned is the path of that popped entry and its length is the current cost of that
  state.

  The loop and \<open>move\<close> are taken over any constructor that stores the cost it is given,
  so that the statement covers the successors a constructor returns: the frontier after
  any number of iterations, the iteration that returns a path, and the whole run. The
  constructor of the source meets the assumption (it returns no state), with it the
  functions are \<open>move\<close>, \<open>search_step\<close>, \<open>config_after\<close> and \<open>search_loop\<close> of the source,
  and \<open>solve\<close> is that loop for each of the five strategies.
\<close>

theorem frontier_cost_is_path_length:
  assumes ctor: "\<forall>ref m c s'. ctor ref m c = Inr s' \<longrightarrow> get_current_cost s' = Inr c"
      and c0: "get_current_cost initial_state = Inr 0"
      and init: "initial_config disc key initial_state = Inr start"
  shows
   "(config_after_with ctor n disc key start = Some (frontier, visited, ref) \<longrightarrow>
       (\<forall>(k, s, p) \<in> set frontier. get_current_cost s = Inr (int (length p))) \<and>
       (search_step_with ctor disc key (frontier, visited, ref) = Inr (Return (Some path)) \<longrightarrow>
          (\<exists>k s rest. frontier_get disc frontier = Inr ((k, s, path), rest) \<and>
                      check_solved s = Inr True \<and>
                      get_current_cost s = Inr (int (length path))))) \<and>
    (search_loop_with ctor fuel disc key start = Some (Inr (Some path)) \<longrightarrow>
       (\<exists>i fr vis r k s rest.
           i < fuel \<and> config_after_with ctor i disc key start = Some (fr, vis, r) \<and>
           frontier_get disc fr = Inr ((k, s, path), rest) \<and>
           check_solved s = Inr True \<and> get_current_cost s = Inr (int (length path)))) \<and>
    (\<forall>ref m c s'. GameState_init ref m c = Inr s' \<longrightarrow> get_current_cost s' = Inr c) \<and>
    move_with GameState_init = move \<and>
    search_step_with GameState_init = search_step \<and>
    config_after_with GameState_init n disc key start = config_after n disc key start \<and>
    search_loop_with GameState_init fuel disc key start = search_loop fuel disc key start \<and>
    (disc = Queue \<and> key = no_key \<longrightarrow>
       solve fuel initial_state ''bfs'' = search_loop fuel disc key start) \<and>
    (disc = LifoQueue \<and> key = no_key \<longrightarrow>
       solve fuel initial_state ''dfs'' = search_loop fuel disc key start) \<and>
    (disc = PriorityQueue \<and> key = get_total_cost \<longrightarrow>
       solve fuel initial_state ''astar'' = search_loop fuel disc key start) \<and>
    (disc = PriorityQueue \<and> key = ucs_key \<longrightarrow>
       solve fuel initial_state ''ucs'' = search_loop fuel disc key start) \<and>
    (disc = PriorityQueue \<and> key = get_heuristic \<longrightarrow>
       solve fuel initial_state ''greedy'' = search_loop fuel disc key start)"
proof -
  obtain f0 v0 r0 where start: "start = (f0, v0, r0)" by (cases start) auto
  from init c0 start have ok0: "entries_ok f0"
    using initial_config_entries_ok by blast
  have popped: "\<exists>k s rest. frontier_get disc fr = Inr ((k, s, path), rest) \<and>
                  check_solved s = Inr True \<and> get_current_cost s = Inr (int (length path))"
    if ca: "config_after_with ctor i disc key start = Some (fr, vis, r)"
      and st: "search_step_with ctor disc key (fr, vis, r) = Inr (Return (Some path))"
    for i fr vis r
  proof -
    from config_after_with_entries_ok [OF ctor ca [unfolded start] ok0] have ok: "entries_ok fr" .
    from search_step_with_Return [OF st] obtain k s rest where
      g: "frontier_get disc fr = Inr ((k, s, path), rest)" and cs: "check_solved s = Inr True"
      by blast
    from frontier_get_set [OF g] ok have "get_current_cost s = Inr (int (length path))"
      by (auto simp: entries_ok_def)
    with g cs show ?thesis by blast
  qed
  have A: "config_after_with ctor n disc key start = Some (frontier, visited, ref) \<longrightarrow>
           (\<forall>(k, s, p) \<in> set frontier. get_current_cost s = Inr (int (length p))) \<and>
           (search_step_with ctor disc key (frontier, visited, ref) = Inr (Return (Some path)) \<longrightarrow>
              (\<exists>k s rest. frontier_get disc frontier = Inr ((k, s, path), rest) \<and>
                          check_solved s = Inr True \<and>
                          get_current_cost s = Inr (int (length path))))"
  proof (intro impI conjI)
    assume ca: "config_after_with ctor n disc key start = Some (frontier, visited, ref)"
    from config_after_with_entries_ok [OF ctor ca [unfolded start] ok0]
    show "\<forall>(k, s, p) \<in> set frontier. get_current_cost s = Inr (int (length p))"
      by (auto simp: entries_ok_def)
    assume "search_step_with ctor disc key (frontier, visited, ref) = Inr (Return (Some path))"
    with ca show "\<exists>k s rest. frontier_get disc frontier = Inr ((k, s, path), rest) \<and>
                    check_solved s = Inr True \<and> get_current_cost s = Inr (int (length path))"
      by (rule popped)
  qed
  have B: "search_loop_with ctor fuel disc key start = Some (Inr (Some path)) \<longrightarrow>
           (\<exists>i fr vis r k s rest.
             i < fuel \<and> config_after_with ctor i disc key start = Some (fr, vis, r) \<and>
             frontier_get disc fr = Inr ((k, s, path), rest) \<and>
             check_solved s = Inr True \<and> get_current_cost s = Inr (int (length path)))"
  proof
    assume l: "search_loop_with ctor fuel disc key start = Some (Inr (Some path))"
    from search_loop_with_returns [OF l] obtain i cfg' where
      i: "i < fuel" "config_after_with ctor i disc key start = Some cfg'"
         "search_step_with ctor disc key cfg' = Inr (Return (Some path))" by blast
    obtain fr vis r where cfg': "cfg' = (fr, vis, r)" by (cases cfg') auto
    from popped [OF i(2) [unfolded cfg'] i(3) [unfolded cfg']] obtain k s rest where
      "frontier_get disc fr = Inr ((k, s, path), rest)" "check_solved s = Inr True"
      "get_current_cost s = Inr (int (length path))" by blast
    with i(1) i(2) cfg'
    show "\<exists>i fr vis r k s rest.
             i < fuel \<and> config_after_with ctor i disc key start = Some (fr, vis, r) \<and>
             frontier_get disc fr = Inr ((k, s, path), rest) \<and>
             check_solved s = Inr True \<and> get_current_cost s = Inr (int (length path))"
      by blast
  qed
  have C: "\<forall>ref m c s'. GameState_init ref m c = Inr s' \<longrightarrow> get_current_cost s' = Inr c"
    by simp
  have E: "config_after_with GameState_init n disc key start = config_after n disc key start"
    by (rule config_after_with_GameState_init)
  have F: "search_loop_with GameState_init fuel disc key start = search_loop fuel disc key start"
    by (rule search_loop_with_GameState_init)
  have D1: "disc = Queue \<and> key = no_key \<longrightarrow>
            solve fuel initial_state ''bfs'' = search_loop fuel disc key start"
    using init by (auto simp: solve_def bfs_def search_def)
  have D2: "disc = LifoQueue \<and> key = no_key \<longrightarrow>
            solve fuel initial_state ''dfs'' = search_loop fuel disc key start"
    using init by (auto simp: solve_def dfs_def search_def)
  have D3: "disc = PriorityQueue \<and> key = get_total_cost \<longrightarrow>
            solve fuel initial_state ''astar'' = search_loop fuel disc key start"
    using init by (auto simp: solve_def astar_def search_def)
  have D4: "disc = PriorityQueue \<and> key = ucs_key \<longrightarrow>
            solve fuel initial_state ''ucs'' = search_loop fuel disc key start"
    using init by (auto simp: solve_def ucs_def search_def)
  have D5: "disc = PriorityQueue \<and> key = get_heuristic \<longrightarrow>
            solve fuel initial_state ''greedy'' = search_loop fuel disc key start"
    using init by (auto simp: solve_def greedy_def search_def)
  show ?thesis
    by (intro conjI)
       (rule A B C move_with_GameState_init search_step_with_GameState_init E F
             D1 D2 D3 D4 D5)+
qed

text \<open>
  With \<open>ordered_init\<close> for the constructor, the depth-first run from \<open>#@$ .#\<close> holds
  after two iterations the entries for the paths \<open>R L\<close> and \<open>R R\<close>, both of cost 2, and
  the third iteration pops the solved state and returns \<open>R R\<close>.
\<close>

theorem frontier_cost_is_path_length_witness:
  "get_current_cost push_example = Inr 0 \<and>
   initial_config LifoQueue no_key push_example = Inr ([(Fin 0, push_example, [])], [], 1) \<and>
   config_after_with ordered_init 2 LifoQueue no_key ([(Fin 0, push_example, [])], [], 1)
     = Some ([(Fin 0, stepped_back_example, [''R'', ''L'']),
              (Fin 0, pushed_twice_example, [''R'', ''R''])],
             [push_example, pushed_once_example], 9) \<and>
   get_current_cost stepped_back_example = Inr (int (length [''R'', ''L''])) \<and>
   get_current_cost pushed_twice_example = Inr (int (length [''R'', ''R''])) \<and>
   search_step_with ordered_init LifoQueue no_key
     ([(Fin 0, stepped_back_example, [''R'', ''L'']),
       (Fin 0, pushed_twice_example, [''R'', ''R''])],
      [push_example, pushed_once_example], 9) = Inr (Return (Some [''R'', ''R''])) \<and>
   check_solved pushed_twice_example = Inr True \<and>
   search_loop_with ordered_init 3 LifoQueue no_key ([(Fin 0, push_example, [])], [], 1)
     = Some (Inr (Some [''R'', ''R''])) \<and>
   solve 3 push_example ''dfs''
     = search_loop 3 LifoQueue no_key ([(Fin 0, push_example, [])], [], 1)"
proof -
  have ctor: "\<forall>ref m c s'. ordered_init ref m c = Inr s' \<longrightarrow> get_current_cost s' = Inr c"
    using ordered_init_stores_cost by blast
  have c0: "get_current_cost push_example = Inr 0"
    by (simp add: get_current_cost_def push_example_def)
  have init: "initial_config LifoQueue no_key push_example
                = Inr ([(Fin 0, push_example, [])], [], 1)"
    by (simp add: initial_config_def no_key_def frontier_put_empty push_example_def)
  have costs: "get_current_cost stepped_back_example = Inr (int (length [''R'', ''L'']))"
      "get_current_cost pushed_twice_example = Inr (int (length [''R'', ''R'']))"
      "check_solved pushed_twice_example = Inr True"
    by (simp_all add: get_current_cost_def check_solved_def stepped_back_example_def
          pushed_twice_example_def)
  note inst = frontier_cost_is_path_length
      [where ctor = ordered_init and initial_state = push_example and disc = LifoQueue
         and key = no_key and start = "([(Fin 0, push_example, [])], [], 1)" and n = 2
         and frontier = "[(Fin 0, stepped_back_example, [''R'', ''L'']),
                          (Fin 0, pushed_twice_example, [''R'', ''R''])]"
         and visited = "[push_example, pushed_once_example]" and ref = 9
         and path = "[''R'', ''R'']" and fuel = 3,
       OF ctor c0 init]
  from inst have "solve 3 push_example ''dfs''
     = search_loop 3 LifoQueue no_key ([(Fin 0, push_example, [])], [], 1)"
    by blast
  with c0 init costs dfs_run_push_example dfs_step_push_example dfs_loop_push_example
  show ?thesis by (intro conjI)
qed

text \<open>
  Claim C3. For a grid with no reachable solved state every strategy is claimed to
  return the not-found result. The grid \<open>#@ $#\<close> between two rows of walls has a box and
  no target, so no state is solved. In the source, the first iteration of every strategy
  pops the initial state and calls \<open>move\<close>; the step to the right is valid, \<open>move\<close> calls
  the constructor, and the run ends with \<open>AttributeError\<close>, whatever the bound on the
  number of iterations.
\<close>

theorem solve_unsolvable_raises:
  "solve (Suc n) corridor_example ''bfs'' = Some (Inl AttributeError) \<and>
   solve (Suc n) corridor_example ''dfs'' = Some (Inl AttributeError) \<and>
   solve (Suc n) corridor_example ''astar'' = Some (Inl AttributeError) \<and>
   solve (Suc n) corridor_example ''ucs'' = Some (Inl AttributeError) \<and>
   solve (Suc n) corridor_example ''greedy'' = Some (Inl AttributeError)"
  by (simp add: solve_defs corridor_example_def move_defs cell_defs)

text \<open>
  Claim C4. Once the strategy is accepted, the search loop is claimed never to raise,
  and the priority queue never to fail on entries of equal key. In the source, on the
  grid \<open>#@$ .#\<close> the loops of \<open>astar\<close> and \<open>ucs\<close> raise \<open>AttributeError\<close> in their first
  iteration, from the constructor call of \<open>move\<close>. And pushing an entry onto a heap that
  holds an entry of the same key with another state compares the two states, which
  raises \<open>TypeError\<close>.
\<close>

theorem priority_search_raises:
  "astar (Suc n) push_example = Some (Inl AttributeError) \<and>
   ucs (Suc n) push_example = Some (Inl AttributeError) \<and>
   heappush [(Fin 1, corridor_example, [''U''])]
     (Fin 1, corridor_example\<lparr>oid := 1\<rparr>, [''D'']) = Inl TypeError"
  by (simp add: solve_defs push_example_def move_defs cell_defs heappush_def siftdown_def
        siftdown_loop.simps entry_less_def corridor_example_def)

end
